theory Spec2Isabelle
  imports Complex_Main "HOL-Library.AList"
begin

section \<open>Containers of the source language\<close>

text \<open>
  A JavaScript \<^verbatim>\<open>Map<string, V>\<close> keeps its keys in insertion order: \<^verbatim>\<open>set\<close> on an
  existing key replaces the value in place, on a new key appends; \<^verbatim>\<open>delete\<close> removes the
  entry. This is an association list with \<^const>\<open>AList.update\<close>, \<^const>\<open>AList.delete\<close> and
  \<^const>\<open>map_of\<close>. A \<^verbatim>\<open>Set<string>\<close> is likewise insertion ordered: a list without
  repetitions, \<^verbatim>\<open>add\<close> appending a new member and \<^verbatim>\<open>delete\<close> removing it.
  Strings are lists of 8-bit characters, so the model covers Latin-1 text only.
\<close>

type_synonym js_set = "string list"
type_synonym 'v js_map = "(string \<times> 'v) list"

definition set_add :: "string \<Rightarrow> js_set \<Rightarrow> js_set" where
  "set_add x s = (if x \<in> set s then s else s @ [x])"

definition set_delete :: "string \<Rightarrow> js_set \<Rightarrow> js_set" where
  "set_delete x s = removeAll x s"

text \<open>\<^verbatim>\<open>map.get(k) || new Set()\<close>: a set object is always truthy, so only an absent key
  yields the fresh empty set.\<close>

definition get_or_empty :: "js_set js_map \<Rightarrow> string \<Rightarrow> js_set" where
  "get_or_empty m k = (case map_of m k of None \<Rightarrow> [] | Some s \<Rightarrow> s)"

section \<open>Module dependency graph (src/dev/module-graph.ts)\<close>

record ModuleGraph =
  dependencies :: "js_set js_map"
  dependents :: "js_set js_map"
  moduleToFile :: "string js_map"
  fileToModule :: "string js_map"

text \<open>The constructor of \<^verbatim>\<open>ModuleGraphManager\<close>: four empty maps.\<close>

definition new_graph :: ModuleGraph where
  "new_graph = \<lparr>dependencies = [], dependents = [], moduleToFile = [], fileToModule = []\<rparr>"

text \<open>
  One iteration of the loop of \<^verbatim>\<open>addModule\<close> over the dependency array. The pair carries
  the set \<^verbatim>\<open>existingDeps\<close> and the map \<^verbatim>\<open>this.graph.dependents\<close>.
\<close>

definition addModule_iter :: "string \<Rightarrow> string \<Rightarrow> js_set \<times> js_set js_map \<Rightarrow> js_set \<times> js_set js_map" where
  "addModule_iter moduleId dep st =
     (case st of (existingDeps, dpts) \<Rightarrow>
        (set_add dep existingDeps,
         AList.update dep (set_add moduleId (get_or_empty dpts dep)) dpts))"

definition addModule :: "string \<Rightarrow> string \<Rightarrow> string list \<Rightarrow> ModuleGraph \<Rightarrow> ModuleGraph" where
  "addModule moduleId filePath deps g =
     (let m2f = AList.update moduleId filePath (moduleToFile g);
          f2m = AList.update filePath moduleId (fileToModule g);
          existingDeps = get_or_empty (dependencies g) moduleId;
          looped = fold (addModule_iter moduleId) deps (existingDeps, dependents g)
      in \<lparr>dependencies = AList.update moduleId (fst looped) (dependencies g),
          dependents = snd looped,
          moduleToFile = m2f,
          fileToModule = f2m\<rparr>)"

text \<open>
  The body shared by both loops of \<^verbatim>\<open>removeModule\<close>: fetch the set stored under \<open>k\<close>; if
  there is one, delete \<open>moduleId\<close> from it and drop the key when the set has become empty.
\<close>

definition strip_member :: "string \<Rightarrow> string \<Rightarrow> js_set js_map \<Rightarrow> js_set js_map" where
  "strip_member moduleId k m =
     (case map_of m k of
        None \<Rightarrow> m
      | Some s \<Rightarrow>
          (let s' = set_delete moduleId s
           in if length s' = 0 then AList.delete k m else AList.update k s' m))"

text \<open>
  \<^verbatim>\<open>removeModule\<close> is three blocks in sequence. The first removes the two path entries;
  \<^verbatim>\<open>if (filePath)\<close> is a truthiness test, which fails for an absent entry and for the
  empty string.
\<close>

definition unregister :: "string \<Rightarrow> ModuleGraph \<Rightarrow> ModuleGraph" where
  "unregister moduleId g =
     (let f2m = (case map_of (moduleToFile g) moduleId of
                   None \<Rightarrow> fileToModule g
                 | Some filePath \<Rightarrow>
                     if filePath \<noteq> [] then AList.delete filePath (fileToModule g)
                     else fileToModule g)
      in g\<lparr>fileToModule := f2m, moduleToFile := AList.delete moduleId (moduleToFile g)\<rparr>)"

text \<open>
  The second block walks the forward set of the module and strips the module from the
  reverse set of each dependency, then deletes the forward entry. \<^verbatim>\<open>if (deps)\<close> tests a
  set object and fails only for an absent entry.
\<close>

definition drop_forward :: "string \<Rightarrow> ModuleGraph \<Rightarrow> ModuleGraph" where
  "drop_forward moduleId g =
     (case map_of (dependencies g) moduleId of
        None \<Rightarrow> g
      | Some deps \<Rightarrow>
          g\<lparr>dependents := fold (strip_member moduleId) deps (dependents g),
            dependencies := AList.delete moduleId (dependencies g)\<rparr>)"

text \<open>
  The third block reads the reverse set of the module as the second block has left it,
  strips the module from the forward set of each dependent, and deletes the reverse entry.
\<close>

definition drop_reverse :: "string \<Rightarrow> ModuleGraph \<Rightarrow> ModuleGraph" where
  "drop_reverse moduleId g =
     (case map_of (dependents g) moduleId of
        None \<Rightarrow> g
      | Some ds \<Rightarrow>
          g\<lparr>dependencies := fold (strip_member moduleId) ds (dependencies g),
            dependents := AList.delete moduleId (dependents g)\<rparr>)"

definition removeModule :: "string \<Rightarrow> ModuleGraph \<Rightarrow> ModuleGraph" where
  "removeModule moduleId g = drop_reverse moduleId (drop_forward moduleId (unregister moduleId g))"

definition getModuleId :: "ModuleGraph \<Rightarrow> string \<Rightarrow> string option" where
  "getModuleId g filePath = map_of (fileToModule g) filePath"

text \<open>
  The members of all sets stored in a map: every id that the traversal below can be sent
  to. It is finite, which is what bounds the traversal.
\<close>

definition members :: "js_set js_map \<Rightarrow> string set" where
  "members m = (\<Union>e \<in> set m. set (snd e))"

text \<open>
  The closure \<^verbatim>\<open>collectDependents\<close> of \<^verbatim>\<open>getAffectedModules\<close>. The source recurses inside a
  \<^verbatim>\<open>for\<close> loop over the dependents of the current id; the ids still to be visited by the
  enclosing loops are kept here as an explicit stack, the head being the argument of the
  current call. \<open>visited\<close> is the set \<^verbatim>\<open>visited\<close> in insertion order; the set
  \<^verbatim>\<open>affected\<close> receives the same ids at the same moments, so it is the same list.
\<close>

function collectDependents :: "js_set js_map \<Rightarrow> string list \<Rightarrow> js_set \<Rightarrow> js_set" where
  "collectDependents dpts [] visited = visited"
| "collectDependents dpts (i # stack) visited =
     (if i \<in> set visited then collectDependents dpts stack visited
      else collectDependents dpts (get_or_empty dpts i @ stack) (visited @ [i]))"
  by pat_completeness auto

lemma get_or_empty_members: "set (get_or_empty m k) \<subseteq> members m"
proof (cases "map_of m k")
  case None
  then show ?thesis by (simp add: get_or_empty_def)
next
  case (Some s)
  then have "(k, s) \<in> set m" by (rule map_of_SomeD)
  with Some show ?thesis by (force simp: get_or_empty_def members_def)
qed

lemma finite_members [simp]: "finite (members m)"
  by (simp add: members_def)

lemma collect_measure_skip:
  "card ((members dpts \<union> set stack) - set visited)
     \<le> card ((members dpts \<union> set (i # stack)) - set visited)"
  by (intro card_mono) auto

lemma collect_measure_visit:
  assumes "i \<notin> set visited"
  shows "card ((members dpts \<union> set (get_or_empty dpts i @ stack)) - set (visited @ [i]))
           < card ((members dpts \<union> set (i # stack)) - set visited)"
proof -
  let ?old = "(members dpts \<union> set (i # stack)) - set visited"
  let ?new = "(members dpts \<union> set (get_or_empty dpts i @ stack)) - set (visited @ [i])"
  have "?new \<subseteq> ?old - {i}"
    using get_or_empty_members [of dpts i] by auto
  moreover have "i \<in> ?old" using assms by simp
  ultimately have "?new \<subset> ?old" by auto
  then show ?thesis
    by (intro psubset_card_mono) auto
qed

termination collectDependents
proof (relation "inv_image (less_than <*lex*> less_than)
          (\<lambda>(dpts, stack, visited).
             (card ((members dpts \<union> set stack) - set visited), length stack))",
        goal_cases)
  case 1
  show ?case by (intro wf_inv_image wf_lex_prod wf_less_than)
next
  case 2
  then show ?case
    using collect_measure_skip le_eq_less_or_eq by (fastforce simp del: set_simps)
next
  case 3
  then show ?case
    using collect_measure_visit by (simp del: set_simps set_append)
qed

text \<open>
  \<^verbatim>\<open>if (!moduleId)\<close> is a truthiness test as well: the early return is taken when the path
  has no entry and when the id registered for it is the empty string.
\<close>

definition getAffectedModules :: "ModuleGraph \<Rightarrow> string \<Rightarrow> string list" where
  "getAffectedModules g changedFile =
     (case getModuleId g changedFile of
        None \<Rightarrow> []
      | Some moduleId \<Rightarrow>
          if moduleId = [] then [] else collectDependents (dependents g) [moduleId] [])"

subsection \<open>Sequences of graph operations\<close>

text \<open>
  The graph is private to its manager, so the states a caller can observe are those built
  from the constructor by calls of the public mutators. \<open>nbrs m k\<close> reads the set stored
  under \<open>k\<close>, an absent key counting as the empty set.
\<close>

definition nbrs :: "js_set js_map \<Rightarrow> string \<Rightarrow> string set" where
  "nbrs m k = set (get_or_empty m k)"

lemma set_set_add [simp]: "set (set_add x s) = insert x (set s)"
  by (auto simp: set_add_def)

lemma nbrs_update: "nbrs (AList.update k s m) k' = (if k' = k then set s else nbrs m k')"
  by (simp add: nbrs_def get_or_empty_def update_conv')

lemma nbrs_delete: "nbrs (AList.delete k m) k' = (if k' = k then {} else nbrs m k')"
  by (simp add: nbrs_def get_or_empty_def delete_conv')

lemma addModule_iter_pair:
  "addModule_iter mid dep (e, d)
     = (set_add dep e, AList.update dep (set_add mid (get_or_empty d dep)) d)"
  by (simp add: addModule_iter_def)

lemma addModule_loop_fst:
  "set (fst (fold (addModule_iter mid) deps (e, d))) = set e \<union> set deps"
  by (induction deps arbitrary: e d) (auto simp: addModule_iter_pair)

lemma addModule_loop_snd:
  "nbrs (snd (fold (addModule_iter mid) deps (e, d))) b
     = nbrs d b \<union> (if b \<in> set deps then {mid} else {})"
proof (induction deps arbitrary: e d)
  case Nil
  show ?case by simp
next
  case (Cons x xs)
  show ?case
    by (auto simp: addModule_iter_pair Cons.IH nbrs_update) (auto simp: nbrs_def)
qed

lemma addModule_dependencies:
  "nbrs (dependencies (addModule mid f deps g)) a
     = (if a = mid then nbrs (dependencies g) mid \<union> set deps else nbrs (dependencies g) a)"
  by (simp add: addModule_def Let_def nbrs_update addModule_loop_fst) (simp add: nbrs_def)

lemma addModule_dependents:
  "nbrs (dependents (addModule mid f deps g)) b
     = nbrs (dependents g) b \<union> (if b \<in> set deps then {mid} else {})"
  by (simp add: addModule_def Let_def addModule_loop_snd)

definition stripped :: "string \<Rightarrow> js_set option \<Rightarrow> js_set option" where
  "stripped mid v = (case v of None \<Rightarrow> None
      | Some s \<Rightarrow> if removeAll mid s = [] then None else Some (removeAll mid s))"

lemma stripped_idem [simp]: "stripped mid (stripped mid v) = stripped mid v"
  by (simp add: stripped_def split: option.splits)

lemma map_of_strip_member:
  "map_of (strip_member mid k m) k' = (if k' = k then stripped mid (map_of m k) else map_of m k')"
  by (simp add: strip_member_def stripped_def set_delete_def Let_def update_conv' delete_conv'
           split: option.splits)

lemma map_of_strip_loop:
  "map_of (fold (strip_member mid) ks m) k
     = (if k \<in> set ks then stripped mid (map_of m k) else map_of m k)"
proof (induction ks arbitrary: m)
  case Nil
  show ?case by simp
next
  case (Cons x xs)
  show ?case by (simp add: Cons.IH map_of_strip_member)
qed


lemma removeAll_Nil_iff: "removeAll x xs = [] \<longleftrightarrow> set xs \<subseteq> {x}"
  by (induction xs) auto

definition opt_set :: "js_set option \<Rightarrow> string set" where
  "opt_set v = set (case v of None \<Rightarrow> [] | Some s \<Rightarrow> s)"

lemma nbrs_opt_set: "nbrs m k = opt_set (map_of m k)"
  by (simp add: nbrs_def get_or_empty_def opt_set_def)

lemma opt_set_simps [simp]: "opt_set None = {}" "opt_set (Some s) = set s"
  by (simp_all add: opt_set_def)

lemma opt_set_stripped [simp]: "opt_set (stripped mid v) = opt_set v - {mid}"
  by (cases v) (auto simp: stripped_def removeAll_Nil_iff)

lemma unregister_adjacency [simp]:
  "dependencies (unregister mid g) = dependencies g"
  "dependents (unregister mid g) = dependents g"
  by (simp_all add: unregister_def Let_def)

lemma drop_forward_dependents:
  "map_of (dependents (drop_forward mid g)) k
     = (if k \<in> nbrs (dependencies g) mid then stripped mid (map_of (dependents g) k)
        else map_of (dependents g) k)"
  by (cases "map_of (dependencies g) mid")
     (simp_all add: drop_forward_def nbrs_opt_set map_of_strip_loop)

lemma drop_forward_dependencies:
  "map_of (dependencies (drop_forward mid g)) k
     = (if k = mid then None else map_of (dependencies g) k)"
  by (cases "map_of (dependencies g) mid")
     (simp_all add: drop_forward_def delete_conv')

lemma drop_reverse_dependencies:
  "map_of (dependencies (drop_reverse mid g)) k
     = (if k \<in> nbrs (dependents g) mid then stripped mid (map_of (dependencies g) k)
        else map_of (dependencies g) k)"
  by (cases "map_of (dependents g) mid")
     (simp_all add: drop_reverse_def nbrs_opt_set map_of_strip_loop)

lemma drop_reverse_dependents:
  "map_of (dependents (drop_reverse mid g)) k
     = (if k = mid then None else map_of (dependents g) k)"
  by (cases "map_of (dependents g) mid")
     (simp_all add: drop_reverse_def delete_conv')

lemma removeModule_dependents:
  "map_of (dependents (removeModule mid g)) k
     = (if k = mid then None
        else if k \<in> nbrs (dependencies g) mid then stripped mid (map_of (dependents g) k)
        else map_of (dependents g) k)"
  by (simp add: removeModule_def drop_reverse_dependents drop_forward_dependents)

lemma removeModule_dependencies:
  "map_of (dependencies (removeModule mid g)) k
     = (if k = mid then None
        else if k \<in> nbrs (dependents g) mid then stripped mid (map_of (dependencies g) k)
        else map_of (dependencies g) k)"
proof (cases "k = mid")
  case True
  then show ?thesis
    by (simp add: removeModule_def drop_reverse_dependencies drop_forward_dependencies
                  stripped_def)
next
  case False
  have "nbrs (dependents (drop_forward mid (unregister mid g))) mid - {mid}
          = nbrs (dependents g) mid - {mid}"
    by (simp add: nbrs_opt_set drop_forward_dependents)
  with False have "k \<in> nbrs (dependents (drop_forward mid (unregister mid g))) mid
                     \<longleftrightarrow> k \<in> nbrs (dependents g) mid"
    by blast
  with False show ?thesis
    by (simp add: removeModule_def drop_reverse_dependencies drop_forward_dependencies)
qed

datatype graph_op = AddModule string string "string list" | RemoveModule string

fun apply_op :: "graph_op \<Rightarrow> ModuleGraph \<Rightarrow> ModuleGraph" where
  "apply_op (AddModule moduleId filePath deps) g = addModule moduleId filePath deps g"
| "apply_op (RemoveModule moduleId) g = removeModule moduleId g"

definition run_ops :: "graph_op list \<Rightarrow> ModuleGraph" where
  "run_ops ops = fold apply_op ops new_graph"

definition mirrored :: "ModuleGraph \<Rightarrow> bool" where
  "mirrored g \<longleftrightarrow> (\<forall>a b. b \<in> nbrs (dependencies g) a \<longleftrightarrow> a \<in> nbrs (dependents g) b)"

lemma nbrs_removeModule_dependents:
  "nbrs (dependents (removeModule mid g)) k
     = (if k = mid then {}
        else if k \<in> nbrs (dependencies g) mid then nbrs (dependents g) k - {mid}
        else nbrs (dependents g) k)"
  by (simp add: nbrs_opt_set removeModule_dependents)

lemma nbrs_removeModule_dependencies:
  "nbrs (dependencies (removeModule mid g)) k
     = (if k = mid then {}
        else if k \<in> nbrs (dependents g) mid then nbrs (dependencies g) k - {mid}
        else nbrs (dependencies g) k)"
  by (simp add: nbrs_opt_set removeModule_dependencies)

lemma mirrored_addModule: "mirrored g \<Longrightarrow> mirrored (addModule mid f deps g)"
  by (auto simp: mirrored_def addModule_dependencies addModule_dependents)

lemma mirrored_removeModule: "mirrored g \<Longrightarrow> mirrored (removeModule mid g)"
  unfolding mirrored_def nbrs_removeModule_dependencies nbrs_removeModule_dependents
  by auto

lemma mirrored_new: "mirrored new_graph"
  by (simp add: mirrored_def new_graph_def nbrs_def get_or_empty_def)

lemma mirrored_fold: "mirrored g \<Longrightarrow> mirrored (fold apply_op ops g)"
proof (induction ops arbitrary: g)
  case Nil
  then show ?case by simp
next
  case (Cons x xs)
  then show ?case
    by (cases x) (simp_all add: mirrored_addModule mirrored_removeModule)
qed

definition mentions :: "js_set js_map \<Rightarrow> string \<Rightarrow> bool" where
  "mentions m x \<longleftrightarrow> x \<in> fst ` set m \<or> x \<in> members m"

definition no_new_empty :: "js_set js_map \<Rightarrow> js_set js_map \<Rightarrow> bool" where
  "no_new_empty before after \<longleftrightarrow> (\<forall>e \<in> set after. snd e = [] \<longrightarrow> e \<in> set before)"

definition keys_distinct :: "ModuleGraph \<Rightarrow> bool" where
  "keys_distinct g \<longleftrightarrow> distinct (map fst (dependencies g)) \<and> distinct (map fst (dependents g))"

lemma distinct_strip_member:
  "distinct (map fst m) \<Longrightarrow> distinct (map fst (strip_member mid k m))"
  by (cases "map_of m k") (simp_all add: strip_member_def Let_def distinct_update distinct_delete)

lemma distinct_strip_loop:
  "distinct (map fst m) \<Longrightarrow> distinct (map fst (fold (strip_member mid) ks m))"
  by (induction ks arbitrary: m) (simp_all add: distinct_strip_member)

lemma distinct_addModule_loop:
  "distinct (map fst d) \<Longrightarrow> distinct (map fst (snd (fold (addModule_iter mid) deps (e, d))))"
  by (induction deps arbitrary: e d) (simp_all add: addModule_iter_pair distinct_update)

lemma keys_distinct_addModule: "keys_distinct g \<Longrightarrow> keys_distinct (addModule mid f deps g)"
  by (simp add: keys_distinct_def addModule_def Let_def distinct_update distinct_addModule_loop)

lemma keys_distinct_drop_forward: "keys_distinct g \<Longrightarrow> keys_distinct (drop_forward mid g)"
  by (cases "map_of (dependencies g) mid")
     (simp_all add: keys_distinct_def drop_forward_def distinct_delete distinct_strip_loop)

lemma keys_distinct_drop_reverse: "keys_distinct g \<Longrightarrow> keys_distinct (drop_reverse mid g)"
  by (cases "map_of (dependents g) mid")
     (simp_all add: keys_distinct_def drop_reverse_def distinct_delete distinct_strip_loop)

lemma keys_distinct_removeModule: "keys_distinct g \<Longrightarrow> keys_distinct (removeModule mid g)"
  by (simp add: removeModule_def keys_distinct_drop_forward keys_distinct_drop_reverse
                keys_distinct_def [of "unregister mid g"] keys_distinct_def [of g])

lemma keys_distinct_fold: "keys_distinct g \<Longrightarrow> keys_distinct (fold apply_op ops g)"
proof (induction ops arbitrary: g)
  case Nil
  then show ?case by simp
next
  case (Cons x xs)
  then show ?case
    by (cases x) (simp_all add: keys_distinct_addModule keys_distinct_removeModule)
qed

lemma keys_distinct_run: "keys_distinct (run_ops ops)"
  unfolding run_ops_def
  by (rule keys_distinct_fold) (simp add: keys_distinct_def new_graph_def)

lemma mirrored_run: "mirrored (run_ops ops)"
  unfolding run_ops_def by (rule mirrored_fold [OF mirrored_new])

lemma members_iff:
  assumes "distinct (map fst m)"
  shows "x \<in> members m \<longleftrightarrow> (\<exists>k. x \<in> nbrs m k)"
proof
  assume "x \<in> members m"
  then obtain k s where "(k, s) \<in> set m" "x \<in> set s"
    by (auto simp: members_def)
  with assms have "map_of m k = Some s" by simp
  with \<open>x \<in> set s\<close> have "x \<in> nbrs m k" by (simp add: nbrs_opt_set)
  then show "\<exists>k. x \<in> nbrs m k" ..
next
  assume "\<exists>k. x \<in> nbrs m k"
  then obtain k where "x \<in> nbrs m k" ..
  then show "x \<in> members m"
    using get_or_empty_members [of m k] by (auto simp: nbrs_def)
qed

lemma mentions_iff:
  assumes "distinct (map fst m)"
  shows "mentions m x \<longleftrightarrow> map_of m x \<noteq> None \<or> (\<exists>k. x \<in> nbrs m k)"
  using members_iff [OF assms, of x]
  by (simp add: mentions_def map_of_eq_None_iff)

lemma removeModule_not_member_dependencies:
  assumes "mirrored g"
  shows "mid \<notin> nbrs (dependencies (removeModule mid g)) k"
proof (cases "k \<in> nbrs (dependents g) mid")
  case True
  then show ?thesis by (simp add: nbrs_removeModule_dependencies)
next
  case False
  with assms have "mid \<notin> nbrs (dependencies g) k" by (simp add: mirrored_def)
  with False show ?thesis by (simp add: nbrs_removeModule_dependencies)
qed

lemma removeModule_not_member_dependents:
  assumes "mirrored g"
  shows "mid \<notin> nbrs (dependents (removeModule mid g)) k"
proof (cases "k \<in> nbrs (dependencies g) mid")
  case True
  then show ?thesis by (simp add: nbrs_removeModule_dependents)
next
  case False
  with assms have "mid \<notin> nbrs (dependents g) k" by (simp add: mirrored_def)
  with False show ?thesis by (simp add: nbrs_removeModule_dependents)
qed

lemma stripped_not_empty: "stripped mid v \<noteq> Some []"
  by (simp add: stripped_def split: option.splits)

lemma no_new_empty_dependencies:
  assumes "keys_distinct g"
  shows "no_new_empty (dependencies g) (dependencies (removeModule mid g))"
  unfolding no_new_empty_def
proof (intro ballI impI)
  fix e assume e: "e \<in> set (dependencies (removeModule mid g))" "snd e = []"
  obtain k where ek: "e = (k, [])" using e(2) by (cases e) simp
  from assms have "keys_distinct (removeModule mid g)" by (rule keys_distinct_removeModule)
  with e(1) ek have "map_of (dependencies (removeModule mid g)) k = Some []"
    by (simp add: keys_distinct_def)
  then have "map_of (dependencies g) k = Some []"
    using stripped_not_empty [of mid "map_of (dependencies g) k"]
    by (simp add: removeModule_dependencies split: if_splits)
  then show "e \<in> set (dependencies g)" using ek by (simp add: map_of_SomeD)
qed

lemma no_new_empty_dependents:
  assumes "keys_distinct g"
  shows "no_new_empty (dependents g) (dependents (removeModule mid g))"
  unfolding no_new_empty_def
proof (intro ballI impI)
  fix e assume e: "e \<in> set (dependents (removeModule mid g))" "snd e = []"
  obtain k where ek: "e = (k, [])" using e(2) by (cases e) simp
  from assms have "keys_distinct (removeModule mid g)" by (rule keys_distinct_removeModule)
  with e(1) ek have "map_of (dependents (removeModule mid g)) k = Some []"
    by (simp add: keys_distinct_def)
  then have "map_of (dependents g) k = Some []"
    using stripped_not_empty [of mid "map_of (dependents g) k"]
    by (simp add: removeModule_dependents split: if_splits)
  then show "e \<in> set (dependents g)" using ek by (simp add: map_of_SomeD)
qed

lemma removeModule_moduleToFile:
  "map_of (moduleToFile (removeModule mid g)) mid = None"
  by (simp add: removeModule_def drop_reverse_def drop_forward_def unregister_def Let_def
                delete_conv' split: option.splits)

lemma removeModule_fileToModule:
  "map_of (moduleToFile g) mid = Some p \<Longrightarrow> p \<noteq> [] \<Longrightarrow>
     map_of (fileToModule (removeModule mid g)) p = None"
  by (simp add: removeModule_def drop_reverse_def drop_forward_def unregister_def Let_def
                delete_conv' split: option.splits)

lemma run_ops_example:
  "run_ops [AddModule ''a'' ''a.ts'' [''b''], AddModule ''b'' ''b.ts'' [''a''],
            AddModule ''c'' ''c.ts'' [''a'']]
     = \<lparr>dependencies = [(''a'', [''b'']), (''b'', [''a'']), (''c'', [''a''])],
         dependents = [(''b'', [''a'']), (''a'', [''b'', ''c''])],
         moduleToFile = [(''a'', ''a.ts''), (''b'', ''b.ts''), (''c'', ''c.ts'')],
         fileToModule = [(''a.ts'', ''a''), (''b.ts'', ''b''), (''c.ts'', ''c'')]\<rparr>"
  by (simp add: run_ops_def new_graph_def addModule_def addModule_iter_def get_or_empty_def
                set_add_def)

subsection \<open>The mirroring invariant\<close>

text \<open>
  C2. After every sequence of \<^verbatim>\<open>addModule\<close> and \<^verbatim>\<open>removeModule\<close> calls on a fresh
  manager, the forward set of \<open>a\<close> contains \<open>b\<close> exactly when the reverse set of \<open>b\<close>
  contains \<open>a\<close>, a set absent from its map counting as empty.
\<close>

theorem edges_mirrored:
  "b \<in> set (get_or_empty (dependencies (run_ops ops)) a)
     \<longleftrightarrow> a \<in> set (get_or_empty (dependents (run_ops ops)) b)"
  using mirrored_run [of ops]
  by (simp add: mirrored_def nbrs_def)

text \<open>An instance on a graph with the cycle \<open>a \<rightarrow> b \<rightarrow> a\<close>: the edge from \<open>c\<close> to \<open>a\<close>.\<close>

theorem edges_mirrored_witness:
  "''a'' \<in> set (get_or_empty (dependencies (run_ops
       [AddModule ''a'' ''a.ts'' [''b''], AddModule ''b'' ''b.ts'' [''a''],
        AddModule ''c'' ''c.ts'' [''a'']])) ''c'')
   \<and> ''c'' \<in> set (get_or_empty (dependents (run_ops
       [AddModule ''a'' ''a.ts'' [''b''], AddModule ''b'' ''b.ts'' [''a''],
        AddModule ''c'' ''c.ts'' [''a'']])) ''a'')"
proof -
  let ?ops = "[AddModule ''a'' ''a.ts'' [''b''], AddModule ''b'' ''b.ts'' [''a''],
               AddModule ''c'' ''c.ts'' [''a'']]"
  have "''a'' \<in> set (get_or_empty (dependencies (run_ops ?ops)) ''c'')"
    by (simp add: run_ops_example get_or_empty_def)
  with edges_mirrored [where b = "''a''" and ops = ?ops and a = "''c''"] show ?thesis by simp
qed

subsection \<open>Removal leaves no residue\<close>

text \<open>
  After \<^verbatim>\<open>removeModule(m)\<close>, in every state reached by \<^verbatim>\<open>addModule\<close> and \<^verbatim>\<open>removeModule\<close>
  calls, the id \<open>m\<close> is neither a key nor a member of any set of either adjacency map, the
  id-to-path map has no entry for \<open>m\<close>, and no adjacency set is left empty that was not
  empty already.
\<close>

lemma removeModule_adjacency_clean:
  "(let g = run_ops ops; g' = removeModule m g in
      \<not> mentions (dependencies g') m \<and> \<not> mentions (dependents g') m
      \<and> map_of (moduleToFile g') m = None
      \<and> no_new_empty (dependencies g) (dependencies g')
      \<and> no_new_empty (dependents g) (dependents g'))"
proof -
  let ?g = "run_ops ops"
  let ?g' = "removeModule m ?g"
  have kd: "keys_distinct ?g" by (rule keys_distinct_run)
  then have kd': "keys_distinct ?g'" by (rule keys_distinct_removeModule)
  have mir: "mirrored ?g" by (rule mirrored_run)
  have a: "\<not> mentions (dependencies ?g') m"
    using kd' removeModule_not_member_dependencies [OF mir]
    by (simp add: mentions_iff keys_distinct_def removeModule_dependencies)
  have b: "\<not> mentions (dependents ?g') m"
    using kd' removeModule_not_member_dependents [OF mir]
    by (simp add: mentions_iff keys_distinct_def removeModule_dependents)
  have c: "map_of (moduleToFile ?g') m = None" by (rule removeModule_moduleToFile)
  have e: "no_new_empty (dependencies ?g) (dependencies ?g')"
    using kd by (rule no_new_empty_dependencies)
  have f: "no_new_empty (dependents ?g) (dependents ?g')"
    using kd by (rule no_new_empty_dependents)
  from a b c e f show ?thesis by (simp add: Let_def)
qed

text \<open>
  The entry of the path-to-id map is deleted for the path that the id-to-path map holds
  for \<open>m\<close> at that moment, when that path is truthy.
\<close>

lemma removeModule_current_path:
  "map_of (moduleToFile g) m = Some p \<Longrightarrow> p \<noteq> []
     \<Longrightarrow> map_of (fileToModule (removeModule m g)) p = None"
  by (simp add: removeModule_fileToModule)

text \<open>
  \<^verbatim>\<open>addModule\<close> overwrites the path of an id that is registered already and leaves the entry
  of the old path where it is; \<^verbatim>\<open>removeModule\<close> does not find it either.
\<close>

lemma removeModule_stale_path_entry:
  "map_of (fileToModule (run_ops [AddModule ''a'' ''a.ts'' [], AddModule ''a'' ''a2.ts'' [],
                                  RemoveModule ''a''])) ''a.ts'' = Some ''a''"
  by (simp add: run_ops_def new_graph_def addModule_def get_or_empty_def removeModule_def
                unregister_def drop_forward_def drop_reverse_def)

text \<open>
  C3. After \<^verbatim>\<open>removeModule(m)\<close> the path-to-id map should no longer hold the entry of \<open>m\<close>.
  For a module registered under the empty path it still does: \<^verbatim>\<open>if (filePath)\<close> is a
  truthiness test, so \<^verbatim>\<open>fileToModule.delete\<close> is skipped for the empty string, while
  \<^verbatim>\<open>moduleToFile.delete\<close> runs whatever the path. After \<^verbatim>\<open>addModule("m", "", [])\<close> and
  \<^verbatim>\<open>removeModule("m")\<close> the id-to-path map has forgotten \<open>m\<close>, the path-to-id map still sends
  the path to \<open>m\<close>, and a change of that path is reported to affect \<open>m\<close>.
\<close>

theorem removeModule_empty_path_residue:
  "map_of (moduleToFile (run_ops [AddModule ''m'' '''' [], RemoveModule ''m''])) ''m'' = None
   \<and> map_of (fileToModule (run_ops [AddModule ''m'' '''' [], RemoveModule ''m''])) ''''
       = Some ''m''
   \<and> getAffectedModules (run_ops [AddModule ''m'' '''' [], RemoveModule ''m'']) '''' = [''m'']"
  by (simp add: run_ops_def new_graph_def addModule_def get_or_empty_def removeModule_def
                unregister_def drop_forward_def drop_reverse_def getAffectedModules_def
                getModuleId_def)

subsection \<open>Affected modules\<close>

definition dependents_rel :: "js_set js_map \<Rightarrow> (string \<times> string) set" where
  "dependents_rel dpts = {(a, b). b \<in> set (get_or_empty dpts a)}"

lemma collect_keeps_visited:
  "set visited \<subseteq> set (collectDependents dpts stack visited)"
  by (induction dpts stack visited rule: collectDependents.induct) auto

lemma collect_visits_stack:
  "set stack \<subseteq> set (collectDependents dpts stack visited)"
proof (induction dpts stack visited rule: collectDependents.induct)
  case (1 dpts visited)
  show ?case by simp
next
  case (2 dpts i stack visited)
  show ?case
  proof (cases "i \<in> set visited")
    case True
    with 2 collect_keeps_visited [of visited dpts stack] show ?thesis by auto
  next
    case False
    with 2 collect_keeps_visited [of "visited @ [i]" dpts "get_or_empty dpts i @ stack"]
    show ?thesis by auto
  qed
qed

lemma collect_distinct:
  "distinct visited \<Longrightarrow> distinct (collectDependents dpts stack visited)"
  by (induction dpts stack visited rule: collectDependents.induct) auto

lemma collect_sound:
  "set (collectDependents dpts stack visited)
     \<subseteq> set visited \<union> (dependents_rel dpts)\<^sup>* `` set stack"
proof (induction dpts stack visited rule: collectDependents.induct)
  case (1 dpts visited)
  show ?case by simp
next
  case (2 dpts i stack visited)
  show ?case
  proof (cases "i \<in> set visited")
    case True
    with 2 show ?thesis by auto
  next
    case False
    have step: "(dependents_rel dpts)\<^sup>* `` set (get_or_empty dpts i)
                  \<subseteq> (dependents_rel dpts)\<^sup>* `` {i}"
    proof
      fix y assume "y \<in> (dependents_rel dpts)\<^sup>* `` set (get_or_empty dpts i)"
      then obtain x where x: "x \<in> set (get_or_empty dpts i)" "(x, y) \<in> (dependents_rel dpts)\<^sup>*"
        by blast
      from x(1) have "(i, x) \<in> dependents_rel dpts" by (simp add: dependents_rel_def)
      with x(2) show "y \<in> (dependents_rel dpts)\<^sup>* `` {i}"
        by (auto intro: converse_rtrancl_into_rtrancl)
    qed
    from False 2
    have "set (collectDependents dpts (i # stack) visited)
            \<subseteq> set (visited @ [i]) \<union> (dependents_rel dpts)\<^sup>* `` set (get_or_empty dpts i @ stack)"
      by simp
    also have "\<dots> \<subseteq> set visited \<union> (dependents_rel dpts)\<^sup>* `` set (i # stack)"
      using step by auto
    finally show ?thesis .
  qed
qed

lemma collect_closed:
  assumes "\<forall>v \<in> set visited. set (get_or_empty dpts v) \<subseteq> set visited \<union> set stack"
  shows "\<forall>v \<in> set (collectDependents dpts stack visited).
           set (get_or_empty dpts v) \<subseteq> set (collectDependents dpts stack visited)"
  using assms
proof (induction dpts stack visited rule: collectDependents.induct)
  case (1 dpts visited)
  then show ?case by simp
next
  case (2 dpts i stack visited)
  show ?case
  proof (cases "i \<in> set visited")
    case True
    with "2.prems" have "\<forall>v \<in> set visited. set (get_or_empty dpts v) \<subseteq> set visited \<union> set stack"
      by auto
    with True "2.IH"(1) show ?thesis by simp
  next
    case False
    from "2.prems"
    have "\<forall>v \<in> set (visited @ [i]).
            set (get_or_empty dpts v) \<subseteq> set (visited @ [i]) \<union> set (get_or_empty dpts i @ stack)"
      by auto
    with False "2.IH"(2) show ?thesis by simp
  qed
qed

lemma collect_from_origin:
  "set (collectDependents dpts [m] []) = (dependents_rel dpts)\<^sup>* `` {m}"
proof
  show "set (collectDependents dpts [m] []) \<subseteq> (dependents_rel dpts)\<^sup>* `` {m}"
    using collect_sound [of dpts "[m]" "[]"] by simp
next
  let ?r = "set (collectDependents dpts [m] [])"
  have origin: "m \<in> ?r" using collect_visits_stack [of "[m]" dpts "[]"] by simp
  have closed: "\<forall>v \<in> ?r. set (get_or_empty dpts v) \<subseteq> ?r"
    by (rule collect_closed) simp
  show "(dependents_rel dpts)\<^sup>* `` {m} \<subseteq> ?r"
  proof
    fix y assume "y \<in> (dependents_rel dpts)\<^sup>* `` {m}"
    then have "(m, y) \<in> (dependents_rel dpts)\<^sup>*" by simp
    then show "y \<in> ?r"
    proof (induction rule: rtrancl_induct)
      case base
      show ?case by (rule origin)
    next
      case (step y z)
      then have "z \<in> set (get_or_empty dpts y)" by (simp add: dependents_rel_def)
      with closed step.IH show ?case by blast
    qed
  qed
qed

text \<open>
  For every graph state, cyclic or not, and every path whose registered id is a truthy
  string, \<^verbatim>\<open>getAffectedModules\<close> returns (the traversal is a total function) the ids
  reachable from that id along reverse-dependency edges, the id itself included, each
  exactly once; for a path with no registered id it returns the empty array.
\<close>

lemma getAffectedModules_closure:
  "(case getModuleId g f of
      None \<Rightarrow> getAffectedModules g f = []
    | Some m \<Rightarrow> m \<noteq> [] \<longrightarrow>
        distinct (getAffectedModules g f)
        \<and> set (getAffectedModules g f) = (dependents_rel (dependents g))\<^sup>* `` {m})"
  by (simp add: getAffectedModules_def collect_from_origin collect_distinct
           del: collectDependents.simps split: option.splits)

lemma getAffectedModules_cycle:
  "getAffectedModules (run_ops [AddModule ''a'' ''a.ts'' [''b''],
       AddModule ''b'' ''b.ts'' [''a''], AddModule ''c'' ''c.ts'' [''a'']]) ''a.ts''
     = [''a'', ''b'', ''c'']"
  by (simp add: run_ops_example getAffectedModules_def getModuleId_def get_or_empty_def)

text \<open>
  C1. The result for a path with a registered id should hold the ids reachable from that
  id, the id itself included. The guard \<^verbatim>\<open>if (!moduleId)\<close>, which the source comments as
  the case of a file that is not in the graph, is a truthiness test and is taken for the
  empty id as well. After \<^verbatim>\<open>addModule("", "a.ts", [])\<close> the path has the id \<^verbatim>\<open>""\<close>, the
  traversal from that id visits it, and \<^verbatim>\<open>getAffectedModules("a.ts")\<close> is empty.
\<close>

theorem getAffectedModules_empty_id:
  "getModuleId (run_ops [AddModule '''' ''a.ts'' []]) ''a.ts'' = Some ''''
   \<and> collectDependents (dependents (run_ops [AddModule '''' ''a.ts'' []])) [''''] [] = ['''']
   \<and> getAffectedModules (run_ops [AddModule '''' ''a.ts'' []]) ''a.ts'' = []"
  by (simp add: run_ops_def new_graph_def addModule_def get_or_empty_def getModuleId_def
                getAffectedModules_def)

section \<open>Update recorder (src/dev/performance-monitor.ts)\<close>

text \<open>
  Clock readings (\<^verbatim>\<open>performance.now()\<close>) are inputs of the model; they and the durations
  derived from them are real numbers.
\<close>

record PerformanceMetrics =
  startTime :: real
  endTime :: "real option"
  duration :: "real option"
  moduleCount :: nat
  filePaths :: "string list"
  updateType :: string
  success :: bool
  error :: "string option"


record HMRPerformanceMonitor =
  metrics :: "PerformanceMetrics list"
  currentUpdate :: "PerformanceMetrics option"

definition maxMetrics :: nat where
  "maxMetrics = 100"

definition createPerformanceMonitor :: HMRPerformanceMonitor where
  "createPerformanceMonitor = \<lparr>metrics = [], currentUpdate = None\<rparr>"

text \<open>The object literal that \<^verbatim>\<open>startUpdate\<close> stores as the sample in flight.\<close>

definition open_sample :: "real \<Rightarrow> string list \<Rightarrow> string \<Rightarrow> PerformanceMetrics" where
  "open_sample now paths utype =
     \<lparr>startTime = now, endTime = None, duration = None, moduleCount = length paths,
      filePaths = paths, updateType = utype, success = False, error = None\<rparr>"

definition startUpdate :: "real \<Rightarrow> string list \<Rightarrow> string \<Rightarrow> HMRPerformanceMonitor \<Rightarrow> HMRPerformanceMonitor" where
  "startUpdate now paths utype mon = mon\<lparr>currentUpdate := Some (open_sample now paths utype)\<rparr>"

text \<open>The assignments of \<^verbatim>\<open>endUpdate\<close> to the sample in flight. \<^verbatim>\<open>if (error)\<close> is a
  truthiness test: an absent or empty error text leaves the field as it is.\<close>

definition close_sample :: "real \<Rightarrow> bool \<Rightarrow> string option \<Rightarrow> PerformanceMetrics \<Rightarrow> PerformanceMetrics" where
  "close_sample now ok err cur =
     (let c1 = cur\<lparr>endTime := Some now, duration := Some (now - startTime cur), success := ok\<rparr>
      in case err of
           None \<Rightarrow> c1
         | Some e \<Rightarrow> if e \<noteq> [] then c1\<lparr>error := Some e\<rparr> else c1)"

definition endUpdate :: "real \<Rightarrow> bool \<Rightarrow> string option \<Rightarrow> HMRPerformanceMonitor \<Rightarrow> HMRPerformanceMonitor" where
  "endUpdate now ok err mon =
     (case currentUpdate mon of
        None \<Rightarrow> mon
      | Some cur \<Rightarrow>
          (let pushed = metrics mon @ [close_sample now ok err cur];
               kept = (if length pushed > maxMetrics then tl pushed else pushed)
           in \<lparr>metrics = kept, currentUpdate = None\<rparr>))"


































section \<open>Reconnection of the browser client (src/dev/hmr-browser.ts)\<close>

text \<open>
  The fields of \<^verbatim>\<open>HMRClient\<close> that the reconnection logic reads and writes. Delays are
  JavaScript numbers; every value that occurs below is a dyadic rational with a short
  mantissa, which a double holds exactly, so they are modelled as real numbers.
  \<open>reconnectTimer\<close> is the delay of the pending timer, \<open>None\<close> when no timer is pending
  (initially, and after \<^verbatim>\<open>clearTimeout\<close>).
\<close>

record ReconnectState =
  reconnectAttempts :: nat
  reconnectDelay :: real
  reconnectTimer :: "real option"

definition maxReconnectAttempts :: nat where
  "maxReconnectAttempts = 10"

definition maxReconnectDelay :: real where
  "maxReconnectDelay = 30000"

definition reconnectDelayMultiplier :: real where
  "reconnectDelayMultiplier = 1.5"

definition new_client :: ReconnectState where
  "new_client = \<lparr>reconnectAttempts = 0, reconnectDelay = 1000, reconnectTimer = None\<rparr>"

definition scheduleReconnect :: "ReconnectState \<Rightarrow> ReconnectState" where
  "scheduleReconnect st =
     (let st0 = st\<lparr>reconnectTimer := None\<rparr>
      in if reconnectAttempts st0 < maxReconnectAttempts
         then (let attempts = reconnectAttempts st0 + 1;
                   delay = min (reconnectDelay st0 * reconnectDelayMultiplier ^ (attempts - 1))
                               maxReconnectDelay
               in st0\<lparr>reconnectAttempts := attempts, reconnectTimer := Some delay\<rparr>)
         else st0\<lparr>reconnectDelay := 1000, reconnectAttempts := 0\<rparr>)"

text \<open>The handler \<^verbatim>\<open>onopen\<close> installed by \<^verbatim>\<open>connect\<close>.\<close>

definition onopen :: "ReconnectState \<Rightarrow> ReconnectState" where
  "onopen st = st\<lparr>reconnectAttempts := 0, reconnectDelay := 1000\<rparr>"

lemma schedule_iter:
  assumes "reconnectAttempts st = 0" "reconnectDelay st = 1000" "n \<le> maxReconnectAttempts"
  shows "reconnectAttempts ((scheduleReconnect ^^ n) st) = n
         \<and> reconnectDelay ((scheduleReconnect ^^ n) st) = 1000
         \<and> (0 < n \<longrightarrow> reconnectTimer ((scheduleReconnect ^^ n) st)
                = Some (min (1000 * 1.5 ^ (n - 1)) 30000))"
  using assms(3)
proof (induction n)
  case 0
  with assms show ?case by simp
next
  case (Suc n)
  then have "n < maxReconnectAttempts" by simp
  with Suc show ?case
    by (simp add: scheduleReconnect_def Let_def reconnectDelayMultiplier_def maxReconnectDelay_def)
qed

text \<open>
  C7. From a state with the counter at 0 and the base delay at 1000 ms (a new client, or
  one whose connection has just opened), the \<open>n\<close>-th consecutive call of
  \<^verbatim>\<open>scheduleReconnect\<close>, for \<open>1 \<le> n \<le> 10\<close>, schedules a timer of
  \<open>min (1000 \<times> 1.5\<^bsup>n-1\<^esup>) 30000\<close> ms, the first four being 1000, 1500, 2250 and 3375 ms; the
  eleventh call schedules nothing; and \<^verbatim>\<open>onopen\<close> resets the counter to 0 and the delay to
  1000 ms in any state.
\<close>

theorem reconnect_backoff:
  assumes "reconnectAttempts st = 0" "reconnectDelay st = 1000"
  shows "(1 \<le> n \<and> n \<le> 10 \<longrightarrow>
            reconnectTimer ((scheduleReconnect ^^ n) st) = Some (min (1000 * 1.5 ^ (n - 1)) 30000))
         \<and> map (\<lambda>k. reconnectTimer ((scheduleReconnect ^^ k) st)) [1, 2, 3, 4]
             = [Some 1000, Some 1500, Some 2250, Some 3375]
         \<and> reconnectTimer ((scheduleReconnect ^^ 11) st) = None
         \<and> reconnectAttempts (onopen st') = 0 \<and> reconnectDelay (onopen st') = 1000"
proof -
  have a: "1 \<le> n \<and> n \<le> 10 \<longrightarrow>
            reconnectTimer ((scheduleReconnect ^^ n) st) = Some (min (1000 * 1.5 ^ (n - 1)) 30000)"
    using schedule_iter [OF assms, of n] by (simp add: maxReconnectAttempts_def)
  have b: "map (\<lambda>k. reconnectTimer ((scheduleReconnect ^^ k) st)) [1, 2, 3, 4]
             = [Some 1000, Some 1500, Some 2250, Some 3375]"
    using schedule_iter [OF assms, of 1] schedule_iter [OF assms, of 2]
          schedule_iter [OF assms, of 3] schedule_iter [OF assms, of 4]
    by (simp add: maxReconnectAttempts_def power_numeral_reduce del: funpow.simps)
  have "reconnectAttempts ((scheduleReconnect ^^ 10) st) = 10"
    using schedule_iter [OF assms, of 10] by (simp add: maxReconnectAttempts_def)
  moreover have "(scheduleReconnect ^^ 11) st = scheduleReconnect ((scheduleReconnect ^^ 10) st)"
    by (simp add: numeral_eq_Suc)
  ultimately have c: "reconnectTimer ((scheduleReconnect ^^ 11) st) = None"
    by (simp add: scheduleReconnect_def maxReconnectAttempts_def Let_def del: funpow.simps)
  from a b c show ?thesis by (simp add: onopen_def del: funpow.simps)
qed

text \<open>A new client: the fifth attempt waits 5062.5 ms, and after ten attempts no timer is
  set.\<close>

theorem reconnect_backoff_witness:
  "reconnectAttempts new_client = 0 \<and> reconnectDelay new_client = 1000
   \<and> reconnectTimer ((scheduleReconnect ^^ 5) new_client) = Some 5062.5
   \<and> reconnectTimer ((scheduleReconnect ^^ 11) new_client) = None"
proof -
  have a: "reconnectAttempts new_client = 0" and b: "reconnectDelay new_client = 1000"
    by (simp_all add: new_client_def)
  have "min (1000 * 1.5 ^ (5 - 1)) (30000 :: real) = 5062.5"
    by (simp add: power_numeral_reduce)
  with reconnect_backoff [OF a b, where n = 5] a b show ?thesis
    by (simp del: funpow.simps)
qed

section \<open>Messages on the wire\<close>

record OutputFile =
  file_path :: string
  contents :: "string option"

record HMRMessage =
  type :: string
  path :: "string option"
  files :: "OutputFile list option"
  message :: "string option"
  moduleId :: "string option"
  componentPath :: "string option"
  layoutPath :: "string option"
  route :: "string option"
  affectedModules :: "string list option"
  chunkUrl :: "string option"
  routePath :: "string option"

definition plain_message :: "string \<Rightarrow> HMRMessage" where
  "plain_message t = \<lparr>type = t, path = None, files = None, message = None, moduleId = None,
     componentPath = None, layoutPath = None, route = None, affectedModules = None,
     chunkUrl = None, routePath = None\<rparr>"

text \<open>
  The object literal \<^verbatim>\<open>priority\<close> of \<^verbatim>\<open>mergeUpdates\<close>: its own properties.
\<close>

definition priority_table :: "(string \<times> int) list" where
  "priority_table =
     [(''reload'', 0), (''error'', 1), (''css-update'', 2), (''component-update'', 3),
      (''layout-update'', 4), (''module-update'', 5), (''update'', 6)]"

text \<open>
  The literal is an ordinary object, so a property read that finds no own property goes
  on to \<^verbatim>\<open>Object.prototype\<close>. These are the names of its members.
\<close>

definition object_prototype_members :: "string list" where
  "object_prototype_members =
     [''constructor'', ''hasOwnProperty'', ''isPrototypeOf'', ''propertyIsEnumerable'',
      ''toLocaleString'', ''toString'', ''valueOf'', ''__proto__'', ''__defineGetter__'',
      ''__defineSetter__'', ''__lookupGetter__'', ''__lookupSetter__'']"

text \<open>
  \<^verbatim>\<open>priority[t] ?? 999\<close>, as far as arithmetic can tell: the number of an own property; for
  the name of an inherited member that member, a function or an object, which is not
  nullish and is not a number (\<open>None\<close>); for any other string 999.
\<close>

definition priority :: "string \<Rightarrow> int option" where
  "priority t =
     (case map_of priority_table t of
        Some n \<Rightarrow> Some n
      | None \<Rightarrow> if t \<in> set object_prototype_members then None else Some 999)"

text \<open>
  The comparison function handed to \<^verbatim>\<open>messages.sort\<close>. The difference of two numbers is a
  number; with a function or an object on either side it is \<^verbatim>\<open>NaN\<close> (\<open>None\<close>).
\<close>

definition compare_priority :: "HMRMessage \<Rightarrow> HMRMessage \<Rightarrow> int option" where
  "compare_priority a b =
     (case priority (type a) of
        None \<Rightarrow> None
      | Some x \<Rightarrow> (case priority (type b) of None \<Rightarrow> None | Some y \<Rightarrow> Some (x - y)))"

text \<open>
  \<^verbatim>\<open>Array.prototype.sort\<close> belongs to the engine. The language fixes its result when the
  comparison function is consistent on the array, as the difference of a numeric rank is:
  the sort is stable, so the result is the array in ascending rank with the elements of
  equal rank in their former order. When a comparison gives \<^verbatim>\<open>NaN\<close> the order is left to
  the engine. The sort is therefore a parameter of the model.
\<close>

type_synonym 'a array_sort = "('a \<Rightarrow> 'a \<Rightarrow> int option) \<Rightarrow> 'a list \<Rightarrow> 'a list"

definition ranked_by :: "('a \<Rightarrow> 'a \<Rightarrow> int option) \<Rightarrow> ('a \<Rightarrow> int) \<Rightarrow> 'a list \<Rightarrow> bool" where
  "ranked_by cmp key xs \<longleftrightarrow> (\<forall>a \<in> set xs. \<forall>b \<in> set xs. cmp a b = Some (key a - key b))"

definition conforming :: "'a array_sort \<Rightarrow> bool" where
  "conforming array_sort \<longleftrightarrow>
     (\<forall>cmp key xs. ranked_by cmp key xs \<longrightarrow> array_sort cmp xs = sort_key key xs)"

text \<open>
  One engine: insertion from the right, an element going in front of the first element
  that it does not compare greater than. A comparison that gives \<^verbatim>\<open>NaN\<close> counts as zero, as
  the language prescribes for the value that the sort receives.
\<close>

fun insert_by :: "('a \<Rightarrow> 'a \<Rightarrow> int option) \<Rightarrow> 'a \<Rightarrow> 'a list \<Rightarrow> 'a list" where
  "insert_by cmp x [] = [x]"
| "insert_by cmp x (y # ys) =
     (if (case cmp x y of None \<Rightarrow> 0 | Some v \<Rightarrow> v) \<le> 0 then x # y # ys
      else y # insert_by cmp x ys)"

definition insertion_sort :: "'a array_sort" where
  "insertion_sort cmp xs = foldr (insert_by cmp) xs []"

definition truthy :: "string option \<Rightarrow> bool" where
  "truthy v \<longleftrightarrow> (case v of None \<Rightarrow> False | Some s \<Rightarrow> s \<noteq> [])"

datatype merge_error = EmptyMessageList

definition collect_truthy :: "string option list \<Rightarrow> js_set" where
  "collect_truthy vs = fold (\<lambda>v acc. case v of None \<Rightarrow> acc
                                       | Some s \<Rightarrow> if s \<noteq> [] then set_add s acc else acc) vs []"

definition first_or :: "js_set \<Rightarrow> string option \<Rightarrow> string option" where
  "first_or s dflt = (case s of [] \<Rightarrow> dflt | x # _ \<Rightarrow> Some x)"

text \<open>
  \<^verbatim>\<open>mergeUpdates\<close>. \<^verbatim>\<open>messages.sort\<close> sorts the array in place and returns it, so the loop
  over \<^verbatim>\<open>messages\<close> that follows reads the sorted array.
\<close>

definition mergeUpdates :: "HMRMessage array_sort \<Rightarrow> HMRMessage list \<Rightarrow> merge_error + HMRMessage" where
  "mergeUpdates array_sort messages =
     (if length messages = 0 then Inl EmptyMessageList
      else if length messages = 1 then Inr (hd messages)
      else
        (let sortedMessages = array_sort compare_priority messages;
             primaryMessage = hd sortedMessages;
             allPaths = collect_truthy (map path sortedMessages);
             allFiles = concat (map (\<lambda>m. case files m of None \<Rightarrow> [] | Some fs \<Rightarrow> fs) sortedMessages);
             allRoutes = collect_truthy (map route sortedMessages)
         in Inr (primaryMessage
                   \<lparr>path := first_or allPaths (path primaryMessage),
                    files := (if length allFiles > 0 then Some allFiles else files primaryMessage),
                    route := first_or allRoutes (route primaryMessage)\<rparr>)))"

text \<open>
  The words of the specification: the rank of a type under the seven priorities, any
  other type ranking 999; the batch in ascending rank, equal ranks in arrival order; the
  files of a message; the first non-empty value of a list.
\<close>

definition rank :: "string \<Rightarrow> int" where
  "rank t =
     (if t = ''reload'' then 0
      else if t = ''error'' then 1
      else if t = ''css-update'' then 2
      else if t = ''component-update'' then 3
      else if t = ''layout-update'' then 4
      else if t = ''module-update'' then 5
      else if t = ''update'' then 6
      else 999)"

definition by_priority :: "HMRMessage list \<Rightarrow> HMRMessage list" where
  "by_priority messages = sort_key (\<lambda>m. rank (type m)) messages"

definition files_of :: "HMRMessage \<Rightarrow> OutputFile list" where
  "files_of m = (case files m of None \<Rightarrow> [] | Some fs \<Rightarrow> fs)"

definition representative :: "string option list \<Rightarrow> string option \<Rightarrow> string option" where
  "representative vs dflt = (case List.find truthy vs of None \<Rightarrow> dflt | Some v \<Rightarrow> v)"

definition plain_types :: "HMRMessage list \<Rightarrow> bool" where
  "plain_types messages \<longleftrightarrow> (\<forall>m \<in> set messages. type m \<notin> set object_prototype_members)"

lemma collect_step_nonempty:
  assumes "acc \<noteq> []"
  shows "first_or (fold (\<lambda>v acc. case v of None \<Rightarrow> acc
              | Some s \<Rightarrow> if s \<noteq> [] then set_add s acc else acc) vs acc) dflt = Some (hd acc)"
  using assms
proof (induction vs arbitrary: acc)
  case Nil
  then show ?case by (cases acc) (simp_all add: first_or_def)
next
  case (Cons v vs)
  let ?f = "\<lambda>v acc. case v of None \<Rightarrow> acc | Some s \<Rightarrow> if s \<noteq> [] then set_add s acc else acc"
  have "?f v acc \<noteq> [] \<and> hd (?f v acc) = hd acc"
    using Cons.prems by (cases v) (auto simp: set_add_def)
  with Cons.IH [of "?f v acc"] show ?case by simp
qed

lemma first_or_collect: "first_or (collect_truthy vs) dflt = representative vs dflt"
proof (induction vs)
  case Nil
  show ?case by (simp add: collect_truthy_def first_or_def representative_def)
next
  case (Cons v vs)
  show ?case
  proof (cases "truthy v")
    case True
    then obtain s where s: "v = Some s" "s \<noteq> []"
      by (cases v) (auto simp: truthy_def)
    have "first_or (collect_truthy (v # vs)) dflt = Some (hd [s])"
      unfolding collect_truthy_def using s
      by (simp add: collect_step_nonempty set_add_def)
    with s True show ?thesis by (simp add: representative_def)
  next
    case False
    then have "collect_truthy (v # vs) = collect_truthy vs"
      by (cases v) (auto simp: collect_truthy_def truthy_def)
    with False Cons.IH show ?thesis by (simp add: representative_def)
  qed
qed

lemma representative_single: "representative [v] v = v"
  by (simp add: representative_def)

lemma insert_by_insort:
  "\<forall>b \<in> set ys. cmp x b = Some (key x - key b) \<Longrightarrow> insert_by cmp x ys = insort_key key x ys"
  by (induction ys) simp_all

lemma insertion_sort_ranked:
  "ranked_by cmp key xs \<Longrightarrow> insertion_sort cmp xs = sort_key key xs"
proof (induction xs)
  case Nil
  show ?case by (simp add: insertion_sort_def)
next
  case (Cons x xs)
  from Cons.prems have tl: "ranked_by cmp key xs" by (simp add: ranked_by_def)
  from Cons.prems have hd: "\<forall>b \<in> set (sort_key key xs). cmp x b = Some (key x - key b)"
    by (simp add: ranked_by_def)
  have "insertion_sort cmp (x # xs) = insert_by cmp x (insertion_sort cmp xs)"
    by (simp add: insertion_sort_def)
  also have "\<dots> = insert_by cmp x (sort_key key xs)" by (simp only: Cons.IH [OF tl])
  also have "\<dots> = insort_key key x (sort_key key xs)" using hd by (rule insert_by_insort)
  finally show ?case by (simp add: sort_key_def)
qed

lemma insertion_sort_conforming: "conforming insertion_sort"
  unfolding conforming_def by (intro allI impI insertion_sort_ranked)

lemma priority_rank:
  "t \<notin> set object_prototype_members \<Longrightarrow> priority t = Some (rank t)"
  by (simp add: priority_def rank_def priority_table_def)

lemma compare_ranked:
  "plain_types messages \<Longrightarrow> ranked_by compare_priority (\<lambda>m. rank (type m)) messages"
  by (simp add: plain_types_def ranked_by_def compare_priority_def priority_rank)

lemma sorted_messages:
  "conforming array_sort \<Longrightarrow> plain_types messages
     \<Longrightarrow> array_sort compare_priority messages = by_priority messages"
  using compare_ranked [of messages] by (simp add: conforming_def by_priority_def)

lemma hd_by_priority:
  assumes "messages \<noteq> []"
  shows "hd (by_priority messages) \<in> set messages"
    and "\<forall>m \<in> set messages. rank (type (hd (by_priority messages))) \<le> rank (type m)"
proof -
  let ?f = "\<lambda>m. rank (type m)"
  let ?s = "sort_key ?f messages"
  from assms have ne: "?s \<noteq> []" by (metis length_sort length_0_conv)
  then obtain y ys where ys: "?s = y # ys" by (cases ?s) auto
  have "y \<in> set ?s" by (simp only: ys list.set_intros)
  then have "y \<in> set messages" by simp
  then show "hd (by_priority messages) \<in> set messages"
    by (simp add: by_priority_def ys)
  have "sorted (map ?f ?s)" by (rule sorted_sort_key)
  then have "sorted (map ?f (y # ys))" by (simp only: ys)
  then have "\<forall>z \<in> set (y # ys). ?f y \<le> ?f z" by auto
  then have "\<forall>z \<in> set ?s. ?f y \<le> ?f z" by (simp only: ys)
  then have "\<forall>z \<in> set messages. ?f y \<le> ?f z" by (simp only: set_sort)
  then show "\<forall>m \<in> set messages. rank (type (hd (by_priority messages))) \<le> rank (type m)"
    by (simp add: by_priority_def ys)
qed

lemma mergeUpdates_many:
  assumes "conforming array_sort" and "plain_types messages" and "length messages > 1"
  shows "mergeUpdates array_sort messages =
           Inr ((hd (by_priority messages))
                  \<lparr>path := representative (map path (by_priority messages))
                              (path (hd (by_priority messages))),
                   files := (if concat (map files_of (by_priority messages)) \<noteq> []
                             then Some (concat (map files_of (by_priority messages)))
                             else files (hd (by_priority messages))),
                   route := representative (map route (by_priority messages))
                              (route (hd (by_priority messages)))\<rparr>)"
proof -
  have f: "(\<lambda>m. case files m of None \<Rightarrow> [] | Some fs \<Rightarrow> fs) = files_of"
    by (simp add: files_of_def fun_eq_iff)
  have s: "array_sort compare_priority messages = by_priority messages"
    using assms(1,2) by (rule sorted_messages)
  from assms(3) have "messages \<noteq> []" by auto
  with assms(3) show ?thesis
    by (simp add: mergeUpdates_def Let_def first_or_collect s f)
qed

lemma set_files_by_priority:
  "set (concat (map files_of (by_priority messages))) = (\<Union>m \<in> set messages. set (files_of m))"
  by (simp add: by_priority_def)

text \<open>
  On a batch without such names the result does not depend on the engine.
\<close>

lemma mergeUpdates_any_engine:
  assumes "conforming s1" and "conforming s2" and "plain_types messages"
  shows "mergeUpdates s1 messages = mergeUpdates s2 messages"
  using sorted_messages [OF assms(1,3)] sorted_messages [OF assms(2,3)]
  by (simp add: mergeUpdates_def)

text \<open>
  A type that names an inherited member compares as \<^verbatim>\<open>NaN\<close> with every other: on the engine
  above the message keeps its place, and stays the template when it came first.
\<close>

lemma mergeUpdates_inherited_name:
  "mergeUpdates insertion_sort [(plain_message ''constructor'')\<lparr>path := Some ''x.ts''\<rparr>,
                                (plain_message ''update'')\<lparr>path := Some ''y.ts''\<rparr>]
     = Inr ((plain_message ''constructor'')\<lparr>path := Some ''x.ts''\<rparr>)"
  by (simp add: mergeUpdates_def plain_message_def insertion_sort_def compare_priority_def
                priority_def priority_table_def object_prototype_members_def Let_def
                collect_truthy_def set_add_def first_or_def)

text \<open>
  C5 fails as stated: the merged message has one \<^verbatim>\<open>path\<close> and one \<^verbatim>\<open>route\<close> field and
  nothing else that could hold the other paths, and \<^verbatim>\<open>messages.sort\<close> sorts the array in
  place, so the loop that picks the representative reads the batch in priority order.
  Of a module update for \<^verbatim>\<open>b.ts\<close> followed by a style update for \<^verbatim>\<open>a.css\<close>, the result
  carries \<^verbatim>\<open>a.css\<close> only: it is neither the first path seen nor the union.
\<close>

theorem mergeUpdates_paths_counterexample:
  "mergeUpdates insertion_sort [(plain_message ''module-update'')\<lparr>path := Some ''b.ts''\<rparr>,
                                (plain_message ''css-update'')\<lparr>path := Some ''a.css''\<rparr>]
     = Inr ((plain_message ''css-update'')\<lparr>path := Some ''a.css''\<rparr>)"
  by (simp add: mergeUpdates_def plain_message_def insertion_sort_def compare_priority_def
                priority_def priority_table_def object_prototype_members_def Let_def
                collect_truthy_def set_add_def first_or_def)

text \<open>
  C5, amended. Take a non-empty batch in which no type is the name of a member that the
  priority object inherits, as is every batch of the seven declared message types, and an
  engine whose sort conforms to the language. \<^verbatim>\<open>mergeUpdates\<close> returns a message whose type
  is the type of a batch message with the lowest priority number (a type that is not
  listed ranking 999), whose files are the files of all messages of the batch, and whose
  path and route are single values: the first non-empty path, and the first non-empty
  route, met when the batch is read in priority order (messages of equal priority in
  arrival order), or the template's own value when no message has one.
\<close>

theorem mergeUpdates_template:
  assumes "conforming array_sort" and "plain_types messages" and "messages \<noteq> []"
  shows "\<exists>merged. mergeUpdates array_sort messages = Inr merged
           \<and> (\<exists>m \<in> set messages. type merged = type m
                  \<and> (\<forall>m' \<in> set messages. rank (type m) \<le> rank (type m')))
           \<and> set (files_of merged) = (\<Union>m \<in> set messages. set (files_of m))
           \<and> path merged = representative (map path (by_priority messages))
                               (path (hd (by_priority messages)))
           \<and> route merged = representative (map route (by_priority messages))
                               (route (hd (by_priority messages)))"
proof (cases "length messages = 1")
  case True
  then obtain m where m: "messages = [m]" by (cases messages) auto
  then show ?thesis
    by (simp add: mergeUpdates_def by_priority_def representative_single)
next
  case False
  with assms(3) have many: "length messages > 1" by (cases messages) auto
  let ?p = "hd (by_priority messages)"
  let ?all = "concat (map files_of (by_priority messages))"
  let ?merged = "?p\<lparr>path := representative (map path (by_priority messages)) (path ?p),
                     files := (if ?all \<noteq> [] then Some ?all else files ?p),
                     route := representative (map route (by_priority messages)) (route ?p)\<rparr>"
  have eq: "mergeUpdates array_sort messages = Inr ?merged"
    by (rule mergeUpdates_many [OF assms(1,2) many])
  have ty: "\<exists>m \<in> set messages. type ?merged = type m
                  \<and> (\<forall>m' \<in> set messages. rank (type m) \<le> rank (type m'))"
    using hd_by_priority [OF assms(3)] by auto
  have "length (by_priority messages) = length messages" by (simp add: by_priority_def)
  with assms(3) have "by_priority messages \<noteq> []" by auto
  then have "?p \<in> set (by_priority messages)" by simp
  then have sub: "set (files_of ?p) \<subseteq> set ?all" by auto
  have fs: "set (files_of ?merged) = (\<Union>m \<in> set messages. set (files_of m))"
  proof (cases "?all = []")
    case True
    with sub have "files_of ?p = []" by simp
    with True show ?thesis
      using set_files_by_priority [of messages] by (simp add: files_of_def)
  next
    case False
    then show ?thesis
      using set_files_by_priority [of messages] by (simp add: files_of_def)
  qed
  from eq ty fs show ?thesis by simp
qed

text \<open>A style update and a module update in one batch, the module update first: the
  result is a style update with the path of the style sheet and the files of both.\<close>

theorem mergeUpdates_template_witness:
  "\<exists>merged. mergeUpdates insertion_sort
       [(plain_message ''module-update'')
          \<lparr>path := Some ''b.ts'', files := Some [\<lparr>file_path = ''b.js'', contents = None\<rparr>]\<rparr>,
        (plain_message ''css-update'')
          \<lparr>path := Some ''a.css'', files := Some [\<lparr>file_path = ''a.css'', contents = None\<rparr>]\<rparr>]
       = Inr merged
     \<and> type merged = ''css-update'' \<and> path merged = Some ''a.css''
     \<and> set (files_of merged) = {\<lparr>file_path = ''b.js'', contents = None\<rparr>,
                                 \<lparr>file_path = ''a.css'', contents = None\<rparr>}"
proof -
  let ?b = "(plain_message ''module-update'')
          \<lparr>path := Some ''b.ts'', files := Some [\<lparr>file_path = ''b.js'', contents = None\<rparr>]\<rparr>"
  let ?a = "(plain_message ''css-update'')
          \<lparr>path := Some ''a.css'', files := Some [\<lparr>file_path = ''a.css'', contents = None\<rparr>]\<rparr>"
  let ?ms = "[?b, ?a]"
  have ne: "?ms \<noteq> []" by simp
  have pl: "plain_types ?ms"
    by (simp add: plain_types_def plain_message_def object_prototype_members_def)
  have sorted: "by_priority ?ms = [?a, ?b]"
    by (simp add: by_priority_def plain_message_def rank_def)
  from mergeUpdates_template [OF insertion_sort_conforming pl ne] obtain merged where
    m: "mergeUpdates insertion_sort ?ms = Inr merged"
       "\<exists>m \<in> set ?ms. type merged = type m
            \<and> (\<forall>m' \<in> set ?ms. rank (type m) \<le> rank (type m'))"
       "set (files_of merged) = (\<Union>m \<in> set ?ms. set (files_of m))"
       "path merged = representative (map path (by_priority ?ms)) (path (hd (by_priority ?ms)))"
    by blast
  from m(2) have "type merged = ''css-update''"
    by (auto simp: plain_message_def rank_def)
  moreover from m(4) have "path merged = Some ''a.css''"
    by (simp add: sorted representative_def truthy_def)
  moreover from m(3) have "set (files_of merged) = {\<lparr>file_path = ''b.js'', contents = None\<rparr>,
                                 \<lparr>file_path = ''a.css'', contents = None\<rparr>}"
    by (auto simp: files_of_def)
  ultimately show ?thesis using m(1) by blast
qed

section \<open>Route gating in the browser client (src/dev/hmr-browser.ts)\<close>

definition startsWith :: "string \<Rightarrow> string \<Rightarrow> bool" where
  "startsWith s p \<longleftrightarrow> take (length p) s = p"

definition endsWith :: "string \<Rightarrow> string \<Rightarrow> bool" where
  "endsWith s p \<longleftrightarrow> length p \<le> length s \<and> drop (length s - length p) s = p"

text \<open>\<^verbatim>\<open>s.split(c)[0]\<close> for a one-character separator: the text before its first occurrence.\<close>

definition before_char :: "char \<Rightarrow> string \<Rightarrow> string" where
  "before_char c s = takeWhile (\<lambda>x. x \<noteq> c) s"

text \<open>\<^verbatim>\<open>s.split(c)\<close> for a one-character separator.\<close>

fun split_on :: "char \<Rightarrow> string \<Rightarrow> string list" where
  "split_on c [] = [[]]"
| "split_on c (x # xs) =
     (if x = c then [] # split_on c xs
      else (case split_on c xs of [] \<Rightarrow> [[x]] | y # ys \<Rightarrow> (x # y) # ys))"

text \<open>\<^verbatim>\<open>s.split("/").filter(Boolean)\<close>: the non-empty pieces.\<close>

definition segments :: "string \<Rightarrow> string list" where
  "segments s = filter (\<lambda>seg. seg \<noteq> []) (split_on CHR ''/'' s)"

text \<open>
  \<^verbatim>\<open>HMRClient.normalizeRoute\<close>. \<^verbatim>\<open>normalized.replace(/\/$/, "")\<close> removes a slash that is
  the last character.
\<close>

definition client_normalizeRoute :: "string \<Rightarrow> string" where
  "client_normalizeRoute r =
     (if r = [] then ''/''
      else
        (let p = before_char CHR ''#'' (before_char CHR ''?'' r);
             normalized = (if startsWith p ''/'' then p else ''/'' @ p)
         in if normalized = ''/'' then ''/''
            else if endsWith normalized ''/'' then butlast normalized
            else normalized))"

text \<open>
  What the client reads from its surroundings. \<open>render_url\<close> is the value of
  \<^verbatim>\<open>__RENDER_DATA__.loadContext?.url\<close> when \<^verbatim>\<open>__RENDER_DATA__\<close> is defined and not null and
  the property is there, \<open>None\<close> otherwise. \<open>module_hot\<close> and \<open>vite_preamble\<close> are the two
  tests of \<^verbatim>\<open>handleUpdate\<close> for a bundler that handles the update itself.
\<close>

record ClientEnv =
  render_url :: "string option"
  location_pathname :: string
  module_hot :: bool
  vite_preamble :: bool

text \<open>
  The loop of \<^verbatim>\<open>isCurrentRoute\<close> over the route segments, the current segments read at the
  same index. Past the end of the current segments the read is \<^verbatim>\<open>undefined\<close>, which
  equals no string.
\<close>

fun segment_loop :: "string list \<Rightarrow> string list \<Rightarrow> bool" where
  "segment_loop [] cs = True"
| "segment_loop (routeSegment # rs) cs =
     (if startsWith routeSegment '':'' \<or> routeSegment = ''*'' then segment_loop rs (drop 1 cs)
      else (case cs of
              [] \<Rightarrow> False
            | currentSegment # _ \<Rightarrow>
                if routeSegment \<noteq> currentSegment then False else segment_loop rs (drop 1 cs)))"

text \<open>The second half of \<^verbatim>\<open>isCurrentRoute\<close>, which reads \<^verbatim>\<open>location.pathname\<close>.\<close>

definition location_matches :: "ClientEnv \<Rightarrow> string \<Rightarrow> bool" where
  "location_matches env r =
     (let normalizedCurrentPath = client_normalizeRoute (location_pathname env);
          normalizedRoute = client_normalizeRoute r
      in if normalizedCurrentPath = normalizedRoute then True
         else
           (let currentSegments = segments normalizedCurrentPath;
                routeSegments = segments normalizedRoute
            in if length currentSegments \<noteq> length routeSegments then False
               else segment_loop routeSegments currentSegments))"

text \<open>
  The first half returns at once when the render context has a non-empty URL: with the
  comparison of the two normalised paths as strings.
\<close>

definition isCurrentRoute :: "ClientEnv \<Rightarrow> string \<Rightarrow> bool" where
  "isCurrentRoute env r =
     (case render_url env of
        None \<Rightarrow> location_matches env r
      | Some url \<Rightarrow>
          if url \<noteq> []
          then (let currentPath = before_char CHR ''#'' (before_char CHR ''?'' url)
                in client_normalizeRoute currentPath = client_normalizeRoute r)
          else location_matches env r)"

text \<open>What the client does with an update, as far as the route check is concerned.\<close>

datatype client_effect =
    SkippedRouteMismatch
  | HotAccept
  | LeftToVite
  | LoadUpdatedModules "OutputFile list"
  | ComponentEventDispatched
  | PageReload
  | StylesheetRefreshed string
  | Nothing

text \<open>\<^verbatim>\<open>message.route && !this.isCurrentRoute(message.route)\<close>.\<close>

definition route_mismatch :: "ClientEnv \<Rightarrow> HMRMessage \<Rightarrow> bool" where
  "route_mismatch env m =
     (case route m of None \<Rightarrow> False | Some r \<Rightarrow> r \<noteq> [] \<and> \<not> isCurrentRoute env r)"

definition handleUpdate :: "ClientEnv \<Rightarrow> HMRMessage \<Rightarrow> client_effect" where
  "handleUpdate env m =
     (if route_mismatch env m then SkippedRouteMismatch
      else if module_hot env then HotAccept
      else if vite_preamble env then LeftToVite
      else (case files m of
              Some (f # fs) \<Rightarrow> LoadUpdatedModules (f # fs)
            | _ \<Rightarrow>
                if truthy (componentPath m) \<or> truthy (layoutPath m)
                then ComponentEventDispatched
                else PageReload))"

definition handleCSSUpdate :: "HMRMessage \<Rightarrow> client_effect" where
  "handleCSSUpdate m =
     (case path m of
        None \<Rightarrow> Nothing
      | Some p \<Rightarrow> if p = [] then Nothing else StylesheetRefreshed p)"

text \<open>
  The dispatch on the type of the merged message. The three cases for component, layout
  and module updates call \<^verbatim>\<open>doSeamlessUpdate\<close>, which reloads the page whatever the route.
\<close>

definition handleMergedUpdate :: "ClientEnv \<Rightarrow> HMRMessage \<Rightarrow> client_effect" where
  "handleMergedUpdate env m =
     (if type m = ''update'' then handleUpdate env m
      else if type m = ''css-update'' then handleCSSUpdate m
      else if type m = ''component-update'' then PageReload
      else if type m = ''layout-update'' then PageReload
      else if type m = ''module-update'' then PageReload
      else Nothing)"

text \<open>The comparison of one route segment with the current segment at its place.\<close>

definition segment_matches :: "string \<Rightarrow> string \<Rightarrow> bool" where
  "segment_matches routeSegment currentSegment \<longleftrightarrow>
     startsWith routeSegment '':'' \<or> routeSegment = ''*'' \<or> routeSegment = currentSegment"

lemma segment_loop_all2:
  "length rs = length cs \<Longrightarrow> segment_loop rs cs = list_all2 segment_matches rs cs"
proof (induction rs arbitrary: cs)
  case Nil
  then show ?case by simp
next
  case (Cons r rs)
  then obtain c cs' where cs: "cs = c # cs'" by (cases cs) auto
  with Cons.prems have "length rs = length cs'" by simp
  from Cons.IH [OF this] cs show ?case
    by (auto simp: segment_matches_def)
qed

lemma location_matches_segments:
  "location_matches env r
     = list_all2 segment_matches (segments (client_normalizeRoute r))
                                 (segments (client_normalizeRoute (location_pathname env)))"
proof (cases "client_normalizeRoute (location_pathname env) = client_normalizeRoute r")
  case True
  have "list_all2 segment_matches (segments (client_normalizeRoute r))
                                  (segments (client_normalizeRoute r))"
    by (rule list_all2_refl) (simp add: segment_matches_def)
  with True show ?thesis by (simp add: location_matches_def)
next
  case False
  show ?thesis
  proof (cases "length (segments (client_normalizeRoute (location_pathname env)))
                  = length (segments (client_normalizeRoute r))")
    case True
    with False show ?thesis
      by (simp add: location_matches_def Let_def segment_loop_all2)
  next
    case False
    then have "\<not> list_all2 segment_matches (segments (client_normalizeRoute r))
                 (segments (client_normalizeRoute (location_pathname env)))"
      by (auto dest: list_all2_lengthD)
    with False \<open>client_normalizeRoute (location_pathname env) \<noteq> client_normalizeRoute r\<close>
    show ?thesis by (simp add: location_matches_def Let_def)
  qed
qed

text \<open>
  C6 fails as stated. A component update carrying the route \<^verbatim>\<open>/post/1\<close> reloads a page
  that shows \<^verbatim>\<open>/user/123\<close>: only messages of type \<^verbatim>\<open>update\<close> pass the route check. And when
  the render context gives the current URL \<^verbatim>\<open>/user/123\<close>, an update for the route
  \<^verbatim>\<open>/user/:id\<close> is dropped: on that branch the two paths are compared as strings.
\<close>

theorem update_route_check_counterexample:
  "handleMergedUpdate \<lparr>render_url = None, location_pathname = ''/user/123'',
                        module_hot = False, vite_preamble = False\<rparr>
     ((plain_message ''component-update'')\<lparr>route := Some ''/post/1''\<rparr>) = PageReload
   \<and> handleMergedUpdate \<lparr>render_url = Some ''/user/123'', location_pathname = ''/user/123'',
                          module_hot = False, vite_preamble = False\<rparr>
       ((plain_message ''update'')\<lparr>route := Some ''/user/:id''\<rparr>) = SkippedRouteMismatch"
  by (simp add: handleMergedUpdate_def handleUpdate_def route_mismatch_def plain_message_def
                isCurrentRoute_def client_normalizeRoute_def before_char_def startsWith_def
                endsWith_def Let_def)

text \<open>
  C6, amended. For a merged message of type \<^verbatim>\<open>update\<close> that carries a non-empty route,
  when the render context supplies no URL, the client compares the normalised location
  path with the normalised route segment by segment: the segment counts must be equal, a
  route segment that starts with a colon or is \<^verbatim>\<open>*\<close> matches any segment, and any other
  route segment must equal the current one. The update is dropped exactly when this
  comparison fails.
\<close>

theorem update_checked_by_segments:
  assumes "type m = ''update''" and "route m = Some r" and "r \<noteq> []"
      and "\<not> truthy (render_url env)"
  shows "handleMergedUpdate env m = SkippedRouteMismatch
           \<longleftrightarrow> \<not> list_all2 segment_matches (segments (client_normalizeRoute r))
                      (segments (client_normalizeRoute (location_pathname env)))"
proof -
  from assms(4) have "isCurrentRoute env r = location_matches env r"
    by (cases "render_url env") (simp_all add: isCurrentRoute_def truthy_def)
  with assms(1-3) show ?thesis
    by (simp add: handleMergedUpdate_def handleUpdate_def route_mismatch_def
                  location_matches_segments split: option.splits list.splits)
qed

text \<open>At the location \<^verbatim>\<open>/user/123\<close> an update for \<^verbatim>\<open>/user/:id\<close> is applied and an update for
  \<^verbatim>\<open>/post/1\<close> is dropped.\<close>

theorem update_checked_by_segments_witness:
  "handleMergedUpdate \<lparr>render_url = None, location_pathname = ''/user/123'',
                        module_hot = False, vite_preamble = False\<rparr>
     ((plain_message ''update'')\<lparr>route := Some ''/user/:id''\<rparr>) \<noteq> SkippedRouteMismatch
   \<and> handleMergedUpdate \<lparr>render_url = None, location_pathname = ''/user/123'',
                          module_hot = False, vite_preamble = False\<rparr>
       ((plain_message ''update'')\<lparr>route := Some ''/post/1''\<rparr>) = SkippedRouteMismatch"
proof -
  let ?env = "\<lparr>render_url = None, location_pathname = ''/user/123'',
               module_hot = False, vite_preamble = False\<rparr>"
  have cur: "segments (client_normalizeRoute ''/user/123'') = [''user'', ''123'']"
    by (simp add: segments_def client_normalizeRoute_def before_char_def startsWith_def
                  endsWith_def)
  have r1: "segments (client_normalizeRoute ''/user/:id'') = [''user'', '':id'']"
    by (simp add: segments_def client_normalizeRoute_def before_char_def startsWith_def
                  endsWith_def)
  have r2: "segments (client_normalizeRoute ''/post/1'') = [''post'', ''1'']"
    by (simp add: segments_def client_normalizeRoute_def before_char_def startsWith_def
                  endsWith_def)
  have a: "handleMergedUpdate ?env ((plain_message ''update'')\<lparr>route := Some ''/user/:id''\<rparr>)
             \<noteq> SkippedRouteMismatch"
    using update_checked_by_segments
            [where env = ?env and r = "''/user/:id''"
               and m = "(plain_message ''update'')\<lparr>route := Some ''/user/:id''\<rparr>"]
    by (simp add: plain_message_def truthy_def cur r1 segment_matches_def startsWith_def)
  have b: "handleMergedUpdate ?env ((plain_message ''update'')\<lparr>route := Some ''/post/1''\<rparr>)
             = SkippedRouteMismatch"
    using update_checked_by_segments
            [where env = ?env and r = "''/post/1''"
               and m = "(plain_message ''update'')\<lparr>route := Some ''/post/1''\<rparr>"]
    by (simp add: plain_message_def truthy_def cur r2 segment_matches_def startsWith_def)
  from a b show ?thesis by simp
qed

section \<open>Regular expressions of the source\<close>

text \<open>
  The source matches and rewrites paths with JavaScript regular-expression literals. The
  fragment it uses is embedded here: single-character patterns, sequence, alternation,
  greedy \<^verbatim>\<open>?\<close>, \<^verbatim>\<open>*\<close> and \<^verbatim>\<open>+\<close> over a single-character pattern, capturing groups and the
  end anchor. The matcher tries alternatives in the order of a backtracking engine, so
  the first result is the match that JavaScript reports.
\<close>

datatype chr_class =
    Lit char        \<comment> \<open>the character itself\<close>
  | AnyChar         \<comment> \<open>\<^verbatim>\<open>.\<close>: anything but a line terminator\<close>
  | WordChar        \<comment> \<open>\<^verbatim>\<open>\w\<close>\<close>
  | Except char     \<comment> \<open>\<^verbatim>\<open>[^c]\<close>\<close>

datatype rx =
    Eps
  | One chr_class
  | Seq rx rx
  | Alt rx rx
  | Opt rx
  | Star chr_class
  | Plus chr_class
  | Group rx
  | Eos               \<comment> \<open>\<^verbatim>\<open>$\<close> without the multiline flag\<close>
  | Mark string       \<comment> \<open>end of a capturing group that was entered at this input\<close>

definition to_lower :: "char \<Rightarrow> char" where
  "to_lower c =
     (case map_of (zip ''ABCDEFGHIJKLMNOPQRSTUVWXYZ'' ''abcdefghijklmnopqrstuvwxyz'') c of
        None \<Rightarrow> c
      | Some l \<Rightarrow> l)"

definition is_word_char :: "char \<Rightarrow> bool" where
  "is_word_char c \<longleftrightarrow>
     c \<in> set ''ABCDEFGHIJKLMNOPQRSTUVWXYZabcdefghijklmnopqrstuvwxyz0123456789_''"

definition is_line_terminator :: "char \<Rightarrow> bool" where
  "is_line_terminator c \<longleftrightarrow> c = CHR 0x0A \<or> c = CHR 0x0D"

text \<open>\<open>ic\<close> is the flag \<^verbatim>\<open>i\<close>.\<close>

fun in_class :: "bool \<Rightarrow> chr_class \<Rightarrow> char \<Rightarrow> bool" where
  "in_class ic (Lit c) x = (if ic then to_lower x = to_lower c else x = c)"
| "in_class ic AnyChar x = (\<not> is_line_terminator x)"
| "in_class ic WordChar x = is_word_char x"
| "in_class ic (Except c) x = (if ic then to_lower x \<noteq> to_lower c else x \<noteq> c)"

fun weight :: "rx \<Rightarrow> nat" where
  "weight Eps = 1"
| "weight (One c) = 1"
| "weight (Seq a b) = 1 + weight a + weight b"
| "weight (Alt a b) = 1 + weight a + weight b"
| "weight (Opt a) = 1 + weight a"
| "weight (Star c) = 1"
| "weight (Plus c) = 3"
| "weight (Group a) = 2 + weight a"
| "weight Eos = 1"
| "weight (Mark s) = 1"

text \<open>
  \<open>rx_run ic todo s caps\<close> matches the patterns \<open>todo\<close> one after the other at the front
  of \<open>s\<close>; \<open>caps\<close> are the groups captured so far. The result is the captures and the
  unread input.
\<close>

function rx_run :: "bool \<Rightarrow> rx list \<Rightarrow> string \<Rightarrow> string list \<Rightarrow> (string list \<times> string) option" where
  "rx_run ic [] s caps = Some (caps, s)"
| "rx_run ic (Eps # todo) s caps = rx_run ic todo s caps"
| "rx_run ic (One c # todo) [] caps = None"
| "rx_run ic (One c # todo) (x # xs) caps =
     (if in_class ic c x then rx_run ic todo xs caps else None)"
| "rx_run ic (Seq a b # todo) s caps = rx_run ic (a # b # todo) s caps"
| "rx_run ic (Alt a b # todo) s caps =
     (case rx_run ic (a # todo) s caps of
        Some r \<Rightarrow> Some r
      | None \<Rightarrow> rx_run ic (b # todo) s caps)"
| "rx_run ic (Opt a # todo) s caps =
     (case rx_run ic (a # todo) s caps of
        Some r \<Rightarrow> Some r
      | None \<Rightarrow> rx_run ic todo s caps)"
| "rx_run ic (Star c # todo) [] caps = rx_run ic todo [] caps"
| "rx_run ic (Star c # todo) (x # xs) caps =
     (if in_class ic c x
      then (case rx_run ic (Star c # todo) xs caps of
              Some r \<Rightarrow> Some r
            | None \<Rightarrow> rx_run ic todo (x # xs) caps)
      else rx_run ic todo (x # xs) caps)"
| "rx_run ic (Plus c # todo) s caps = rx_run ic (One c # Star c # todo) s caps"
| "rx_run ic (Group a # todo) s caps = rx_run ic (a # Mark s # todo) s caps"
| "rx_run ic (Mark s0 # todo) s caps =
     rx_run ic todo s (caps @ [take (length s0 - length s) s0])"
| "rx_run ic (Eos # todo) s caps = (if s = [] then rx_run ic todo s caps else None)"
  by pat_completeness auto
termination
  by (relation "inv_image (less_than <*lex*> less_than)
                  (\<lambda>(ic, todo, s, caps). (length s, sum_list (map weight todo)))")
     auto

definition seq :: "rx list \<Rightarrow> rx" where
  "seq rs = foldr Seq rs Eps"

definition str :: "string \<Rightarrow> rx" where
  "str s = seq (map (\<lambda>c. One (Lit c)) s)"

record rx_match =
  before :: string
  matched :: string
  groups :: "string list"
  after :: string

text \<open>
  \<^verbatim>\<open>RegExp.prototype.exec\<close> from the start of the input: the match at the leftmost
  position where there is one. \<open>pre\<close> is the input already passed over.
\<close>

fun rx_exec_from :: "bool \<Rightarrow> rx \<Rightarrow> string \<Rightarrow> string \<Rightarrow> rx_match option" where
  "rx_exec_from ic r pre [] =
     (case rx_run ic [r] [] [] of
        None \<Rightarrow> None
      | Some (caps, rest) \<Rightarrow> Some \<lparr>before = pre, matched = [], groups = caps, after = rest\<rparr>)"
| "rx_exec_from ic r pre (x # xs) =
     (case rx_run ic [r] (x # xs) [] of
        None \<Rightarrow> rx_exec_from ic r (pre @ [x]) xs
      | Some (caps, rest) \<Rightarrow>
          Some \<lparr>before = pre, matched = take (length (x # xs) - length rest) (x # xs),
                groups = caps, after = rest\<rparr>)"

definition rx_exec :: "bool \<Rightarrow> rx \<Rightarrow> string \<Rightarrow> rx_match option" where
  "rx_exec ic r s = rx_exec_from ic r [] s"

definition rx_test :: "bool \<Rightarrow> rx \<Rightarrow> string \<Rightarrow> bool" where
  "rx_test ic r s \<longleftrightarrow> rx_exec ic r s \<noteq> None"

lemma rx_run_length:
  "rx_run ic todo s caps = Some (caps', rest) \<Longrightarrow> length rest \<le> length s"
proof (induction ic todo s caps arbitrary: caps' rest rule: rx_run.induct)
  case (1 ic s caps)
  from "1.prems" show ?case by simp
next
  case (2 ic todo s caps)
  from "2.prems" have "rx_run ic todo s caps = Some (caps', rest)" by simp
  then show ?case by (rule "2.IH")
next
  case (3 ic c todo caps)
  from "3.prems" show ?case by simp
next
  case (4 ic c todo x xs caps)
  show ?case
  proof (cases "in_class ic c x")
    case True
    with "4.prems" have "rx_run ic todo xs caps = Some (caps', rest)" by simp
    with True "4.IH" have "length rest \<le> length xs" by blast
    then show ?thesis by simp
  next
    case False
    with "4.prems" show ?thesis by simp
  qed
next
  case (5 ic a b todo s caps)
  from "5.prems" have "rx_run ic (a # b # todo) s caps = Some (caps', rest)" by simp
  then show ?case by (rule "5.IH")
next
  case (6 ic a b todo s caps)
  show ?case
  proof (cases "rx_run ic (a # todo) s caps")
    case None
    with "6.prems" have "rx_run ic (b # todo) s caps = Some (caps', rest)" by simp
    with None "6.IH"(2) show ?thesis by blast
  next
    case (Some r)
    with "6.prems" have "rx_run ic (a # todo) s caps = Some (caps', rest)" by simp
    with "6.IH"(1) show ?thesis by blast
  qed
next
  case (7 ic a todo s caps)
  show ?case
  proof (cases "rx_run ic (a # todo) s caps")
    case None
    with "7.prems" have "rx_run ic todo s caps = Some (caps', rest)" by simp
    with None "7.IH"(2) show ?thesis by blast
  next
    case (Some r)
    with "7.prems" have "rx_run ic (a # todo) s caps = Some (caps', rest)" by simp
    with "7.IH"(1) show ?thesis by blast
  qed
next
  case (8 ic c todo caps)
  from "8.prems" have "rx_run ic todo [] caps = Some (caps', rest)" by simp
  then show ?case by (rule "8.IH")
next
  case (9 ic c todo x xs caps)
  show ?case
  proof (cases "in_class ic c x")
    case True
    show ?thesis
    proof (cases "rx_run ic (Star c # todo) xs caps")
      case None
      with True "9.prems" have "rx_run ic todo (x # xs) caps = Some (caps', rest)" by simp
      with True None "9.IH"(2) show ?thesis by blast
    next
      case (Some r)
      with True "9.prems" have "rx_run ic (Star c # todo) xs caps = Some (caps', rest)" by simp
      with True "9.IH"(1) have "length rest \<le> length xs" by blast
      then show ?thesis by simp
    qed
  next
    case False
    with "9.prems" have "rx_run ic todo (x # xs) caps = Some (caps', rest)" by simp
    with False "9.IH"(3) show ?thesis by blast
  qed
next
  case (10 ic c todo s caps)
  from "10.prems" have "rx_run ic (One c # Star c # todo) s caps = Some (caps', rest)"
    by simp
  then show ?case by (rule "10.IH")
next
  case (11 ic a todo s caps)
  from "11.prems" have "rx_run ic (a # Mark s # todo) s caps = Some (caps', rest)" by simp
  then show ?case by (rule "11.IH")
next
  case (12 ic s0 todo s caps)
  from "12.prems"
  have "rx_run ic todo s (caps @ [take (length s0 - length s) s0]) = Some (caps', rest)"
    by simp
  then show ?case by (rule "12.IH")
next
  case (13 ic todo s caps)
  show ?case
  proof (cases "s = []")
    case True
    with "13.prems" have "rx_run ic todo s caps = Some (caps', rest)" by simp
    with True "13.IH" show ?thesis by blast
  next
    case False
    with "13.prems" show ?thesis by simp
  qed
qed

lemma rx_exec_from_length:
  "rx_exec_from ic r pre s = Some m \<Longrightarrow>
     length (after m) \<le> length s \<and> (matched m \<noteq> [] \<longrightarrow> length (after m) < length s)"
proof (induction s arbitrary: pre)
  case Nil
  show ?case
  proof (cases "rx_run ic [r] [] []")
    case None
    with Nil show ?thesis by simp
  next
    case (Some res)
    obtain caps rest where res: "res = (caps, rest)" by (cases res)
    from Some res have "length rest \<le> length ([] :: string)" by (rule_tac rx_run_length) simp
    with Some res Nil show ?thesis by auto
  qed
next
  case (Cons x xs)
  show ?case
  proof (cases "rx_run ic [r] (x # xs) []")
    case None
    with Cons.prems have "rx_exec_from ic r (pre @ [x]) xs = Some m" by simp
    from Cons.IH [OF this] show ?thesis by auto
  next
    case (Some res)
    obtain caps rest where res: "res = (caps, rest)" by (cases res)
    from Some res have "length rest \<le> length (x # xs)" by (rule_tac rx_run_length) simp
    with Some res Cons.prems show ?thesis by auto
  qed
qed

text \<open>
  \<^verbatim>\<open>String.prototype.replace\<close> with a regular expression. Without the flag \<^verbatim>\<open>g\<close> the first
  match is replaced. With it the search resumes after each match (one character further
  on after an empty match); \<open>seen\<close> is the input before the place where it resumes.
\<close>

definition replace_first :: "bool \<Rightarrow> rx \<Rightarrow> (rx_match \<Rightarrow> string) \<Rightarrow> string \<Rightarrow> string" where
  "replace_first ic r f s =
     (case rx_exec ic r s of None \<Rightarrow> s | Some m \<Rightarrow> before m @ f m @ after m)"

function replace_all_from :: "bool \<Rightarrow> rx \<Rightarrow> (rx_match \<Rightarrow> string) \<Rightarrow> string \<Rightarrow> string \<Rightarrow> string" where
  "replace_all_from ic r f seen s =
     (case rx_exec_from ic r seen s of
        None \<Rightarrow> s
      | Some m \<Rightarrow>
          (let skipped = drop (length seen) (before m)
           in if matched m \<noteq> []
              then skipped @ f m @ replace_all_from ic r f (before m @ matched m) (after m)
              else (case after m of
                      [] \<Rightarrow> skipped @ f m
                    | c # cs \<Rightarrow> skipped @ f m @ [c] @ replace_all_from ic r f (before m @ [c]) cs)))"
  by pat_completeness auto
termination
proof (relation "measure (\<lambda>(ic, r, f, seen, s). length s)", goal_cases)
  case 1
  show ?case by simp
next
  case (2 ic r f seen s m skipped)
  then show ?case using rx_exec_from_length [of ic r seen s m] by simp
next
  case (3 ic r f seen s m skipped c cs)
  then show ?case using rx_exec_from_length [of ic r seen s m] by simp
qed

definition replace_all :: "bool \<Rightarrow> rx \<Rightarrow> (rx_match \<Rightarrow> string) \<Rightarrow> string \<Rightarrow> string" where
  "replace_all ic r f s = replace_all_from ic r f [] s"

definition digit_val :: "char \<Rightarrow> nat option" where
  "digit_val c = map_of (zip ''0123456789'' [0, 1, 2, 3, 4, 5, 6, 7, 8, 9]) c"

definition group_ref :: "rx_match \<Rightarrow> nat \<Rightarrow> string option" where
  "group_ref m n = (if 1 \<le> n \<and> n \<le> length (groups m) then Some (groups m ! (n - 1)) else None)"

text \<open>
  The replacement text of \<^verbatim>\<open>replace\<close> when the second argument is a string: \<^verbatim>\<open>$$\<close>, \<^verbatim>\<open>$&\<close>,
  the text before and after the match, and the references \<^verbatim>\<open>$n\<close> and \<^verbatim>\<open>$nn\<close> to groups
  that exist; any other \<^verbatim>\<open>$\<close> stands for itself.
\<close>

fun get_substitution :: "string \<Rightarrow> rx_match \<Rightarrow> string" where
  "get_substitution [] m = []"
| "get_substitution [c] m = [c]"
| "get_substitution (c # d # rest) m =
     (if c \<noteq> CHR ''$'' then c # get_substitution (d # rest) m
      else if d = CHR ''$'' then CHR ''$'' # get_substitution rest m
      else if d = CHR ''&'' then matched m @ get_substitution rest m
      else if d = CHR 0x60 then before m @ get_substitution rest m
      else if d = CHR 0x27 then after m @ get_substitution rest m
      else
        (case digit_val d of
           None \<Rightarrow> c # get_substitution (d # rest) m
         | Some n1 \<Rightarrow>
             (case (case rest of
                      [] \<Rightarrow> None
                    | e # _ \<Rightarrow> (case digit_val e of
                                  None \<Rightarrow> None
                                | Some n2 \<Rightarrow> group_ref m (10 * n1 + n2))) of
                Some g2 \<Rightarrow> g2 @ get_substitution (tl rest) m
              | None \<Rightarrow>
                  (case group_ref m n1 of
                     Some g1 \<Rightarrow> g1 @ get_substitution rest m
                   | None \<Rightarrow> c # get_substitution (d # rest) m))))"

section \<open>Route inference (src/dev/route-inference.ts)\<close>

record RoutePattern =
  filePattern :: rx
  ignoreCase :: bool
  routeTemplate :: string

record RouteMapping =
  patterns :: "RoutePattern list"
  basePath :: string

text \<open>The alternation \<^verbatim>\<open>(tsx?|jsx?)\<close> shared by the patterns, and the escaped dot.\<close>

definition script_ext :: rx where
  "script_ext = Alt (seq [str ''ts'', Opt (One (Lit CHR ''x''))])
                    (seq [str ''js'', Opt (One (Lit CHR ''x''))])"

definition dot :: rx where
  "dot = One (Lit CHR ''.'')"

definition DEFAULT_ROUTE_PATTERNS :: "RoutePattern list" where
  "DEFAULT_ROUTE_PATTERNS =
     [\<lparr>filePattern = seq [str ''pages/'', Group (Star AnyChar), dot, Group script_ext, Eos],
       ignoreCase = True, routeTemplate = ''/$1''\<rparr>,
      \<lparr>filePattern = seq [str ''routes/'', Group (Star AnyChar), dot, Group script_ext, Eos],
       ignoreCase = True, routeTemplate = ''/$1''\<rparr>,
      \<lparr>filePattern = seq [str ''app/'', Group (Star AnyChar), str ''/page'', dot,
                          Group script_ext, Eos],
       ignoreCase = True, routeTemplate = ''/$1''\<rparr>,
      \<lparr>filePattern = seq [str ''app/'', Group (Star AnyChar), str ''/layout'', dot,
                          Group script_ext, Eos],
       ignoreCase = True, routeTemplate = ''/$1''\<rparr>,
      \<lparr>filePattern = seq [Alt (seq [str ''component'', Opt (One (Lit CHR ''s''))])
                            (Alt (seq [str ''page'', Opt (One (Lit CHR ''s''))])
                                 (seq [str ''route'', Opt (One (Lit CHR ''s''))])),
                          str ''/'', Group (Star AnyChar), dot, Group script_ext, Eos],
       ignoreCase = True, routeTemplate = ''/$1''\<rparr>]"

text \<open>The constructor with no argument: the default patterns and the empty base path.\<close>

definition createRouteInferrer :: RouteMapping where
  "createRouteInferrer = \<lparr>patterns = DEFAULT_ROUTE_PATTERNS, basePath = ''''\<rparr>"

text \<open>
  \<^verbatim>\<open>normalizePath\<close>. The base path is a string pattern: its first occurrence is removed,
  when the base path is not empty. Then every backslash becomes a slash, and one leading
  slash is dropped (\<^verbatim>\<open>/^\//\<close>).
\<close>

definition normalizePath :: "RouteMapping \<Rightarrow> string \<Rightarrow> string" where
  "normalizePath mapping filePath =
     (let n1 = (if basePath mapping \<noteq> []
                then replace_first False (str (basePath mapping)) (\<lambda>m. []) filePath
                else filePath);
          n2 = replace_all False (One (Lit (CHR 0x5C))) (get_substitution ''/'') n1
      in case n2 of
           [] \<Rightarrow> []
         | c # cs \<Rightarrow> if c = CHR ''/'' then cs else n2)"

definition bracket_open :: rx where
  "bracket_open = One (Lit CHR ''['')"

definition bracket_close :: rx where
  "bracket_close = One (Lit CHR '']'')"

text \<open>The five rewrites of \<^verbatim>\<open>processDynamicRoute\<close>, each a global replacement, in the order
  of the source.\<close>

text \<open>\<^verbatim>\<open>route.replace(/\([^)]+\)\//g, "")\<close>\<close>

definition erase_route_groups :: "string \<Rightarrow> string" where
  "erase_route_groups r =
     replace_all False
       (seq [One (Lit CHR ''(''), Plus (Except CHR '')''), One (Lit CHR '')''),
             One (Lit CHR ''/'')])
       (get_substitution '''') r"

text \<open>\<^verbatim>\<open>route.replace(/\[\[\.\.\.(\w+)\]\]/g, "*")\<close>\<close>

definition rewrite_optional_catch_all :: "string \<Rightarrow> string" where
  "rewrite_optional_catch_all r =
     replace_all False
       (seq [bracket_open, bracket_open, str ''...'', Group (Plus WordChar),
             bracket_close, bracket_close])
       (get_substitution ''*'') r"

text \<open>\<^verbatim>\<open>route.replace(/\[\[(\w+)\]\]/g, ":$1?")\<close>\<close>

definition rewrite_optional_param :: "string \<Rightarrow> string" where
  "rewrite_optional_param r =
     replace_all False
       (seq [bracket_open, bracket_open, Group (Plus WordChar), bracket_close, bracket_close])
       (get_substitution '':$1?'') r"

text \<open>\<^verbatim>\<open>route.replace(/\[\.\.\.(\w+)\]/g, "*")\<close>\<close>

definition rewrite_catch_all :: "string \<Rightarrow> string" where
  "rewrite_catch_all r =
     replace_all False
       (seq [bracket_open, str ''...'', Group (Plus WordChar), bracket_close])
       (get_substitution ''*'') r"

text \<open>\<^verbatim>\<open>route.replace(/\[(\w+)\]/g, ":$1")\<close>\<close>

definition rewrite_param :: "string \<Rightarrow> string" where
  "rewrite_param r =
     replace_all False
       (seq [bracket_open, Group (Plus WordChar), bracket_close])
       (get_substitution '':$1'') r"

definition processDynamicRoute :: "string \<Rightarrow> string" where
  "processDynamicRoute r0 =
     (let r1 = erase_route_groups r0;
          r2 = rewrite_optional_catch_all r1;
          r3 = rewrite_optional_param r2;
          r4 = rewrite_catch_all r3;
          r5 = rewrite_param r4
      in r5)"

text \<open>\<^verbatim>\<open>RouteInferrer.normalizeRoute\<close>.\<close>

definition normalizeRoute :: "string \<Rightarrow> string" where
  "normalizeRoute r0 =
     (let r1 = replace_first True (seq [str ''/index'', Eos]) (get_substitution ''/'') r0;
          r2 = (if \<not> startsWith r1 ''/'' then ''/'' @ r1 else r1);
          r3 = (if r2 \<noteq> ''/'' \<and> endsWith r2 ''/'' then butlast r2 else r2)
      in replace_all False (Plus (Lit CHR ''/'')) (get_substitution ''/'') r3)"

text \<open>\<^verbatim>\<open>match[1] || ""\<close>.\<close>

definition first_group :: "rx_match \<Rightarrow> string" where
  "first_group m = (case groups m of [] \<Rightarrow> [] | g # _ \<Rightarrow> g)"

text \<open>The loop of \<^verbatim>\<open>inferRoute\<close> over the patterns: the first that matches decides.\<close>

fun try_patterns :: "RoutePattern list \<Rightarrow> string \<Rightarrow> string option" where
  "try_patterns [] normalizedPath = None"
| "try_patterns (p # ps) normalizedPath =
     (case rx_exec (ignoreCase p) (filePattern p) normalizedPath of
        None \<Rightarrow> try_patterns ps normalizedPath
      | Some m \<Rightarrow>
          (let pathPart = first_group m;
               r = replace_all False (seq [One (Lit CHR ''$''), One (Lit CHR ''1'')])
                     (get_substitution pathPart) (routeTemplate p)
           in Some (normalizeRoute (processDynamicRoute r))))"

definition inferRoute :: "RouteMapping \<Rightarrow> string \<Rightarrow> string option" where
  "inferRoute mapping filePath = try_patterns (patterns mapping) (normalizePath mapping filePath)"

definition isLayoutFile :: "RouteMapping \<Rightarrow> string \<Rightarrow> bool" where
  "isLayoutFile mapping filePath =
     (let normalizedPath = normalizePath mapping filePath
      in rx_test True (seq [str ''layout'', dot, Group script_ext, Eos]) normalizedPath
         \<or> rx_test True (seq [str ''_layout'', dot, Group script_ext, Eos]) normalizedPath
         \<or> rx_test True (seq [str ''app/'', Star AnyChar, str ''/layout'', dot,
                               Group script_ext, Eos]) normalizedPath)"

text \<open>In \<^verbatim>\<open>isPageFile\<close> the conjunction binds tighter than the disjunction.\<close>

definition isPageFile :: "RouteMapping \<Rightarrow> string \<Rightarrow> bool" where
  "isPageFile mapping filePath =
     (let normalizedPath = normalizePath mapping filePath
      in rx_test True (seq [str ''page'', dot, Group script_ext, Eos]) normalizedPath
         \<or> (rx_test True (seq [Alt (seq [str ''page'', Opt (One (Lit CHR ''s''))])
                                    (seq [str ''route'', Opt (One (Lit CHR ''s''))]),
                                str ''/'', Star AnyChar, dot, Group script_ext, Eos])
                normalizedPath
            \<and> \<not> isLayoutFile mapping filePath))"

definition isComponentFile :: "RouteMapping \<Rightarrow> string \<Rightarrow> bool" where
  "isComponentFile mapping filePath =
     (let normalizedPath = normalizePath mapping filePath
      in rx_test True (seq [str ''component'', Opt (One (Lit CHR ''s'')), str ''/'',
                            Star AnyChar, dot, Group script_ext, Eos]) normalizedPath
         \<and> \<not> isLayoutFile mapping filePath
         \<and> \<not> isPageFile mapping filePath)"

lemma infer_index: "inferRoute createRouteInferrer ''pages/index.tsx'' = Some ''/''"
  by code_simp

lemma infer_param: "inferRoute createRouteInferrer ''pages/user/[id].tsx'' = Some ''/user/:id''"
  by code_simp

lemma infer_catch_all:
  "inferRoute createRouteInferrer ''pages/docs/[...slug].tsx'' = Some ''/docs/*''"
  by code_simp

lemma infer_group: "inferRoute createRouteInferrer ''pages/(auth)/login.tsx'' = Some ''/login''"
  by code_simp

lemma dynamic_optional_catch_all: "processDynamicRoute ''/a/[[...slug]]'' = ''/a/*''"
  by code_simp

lemma dynamic_optional_param: "processDynamicRoute ''/a/[[id]]'' = ''/a/:id?''"
  by code_simp

lemma dynamic_group_first: "processDynamicRoute ''/(auth)/[id]'' = ''/:id''"
  by code_simp

lemma other_order_differs:
  "rewrite_optional_catch_all (rewrite_catch_all ''/a/[[...slug]]'') = ''/a/[*]''"
  "rewrite_optional_param (rewrite_param ''/a/[[id]]'') = ''/a/[:id]''"
  by code_simp+

text \<open>
  C8. The default inferrer maps \<^verbatim>\<open>pages/index.tsx\<close> to \<^verbatim>\<open>/\<close>, \<^verbatim>\<open>pages/user/[id].tsx\<close> to
  \<^verbatim>\<open>/user/:id\<close>, \<^verbatim>\<open>pages/docs/[...slug].tsx\<close> to \<^verbatim>\<open>/docs/*\<close> and \<^verbatim>\<open>pages/(auth)/login.tsx\<close> to
  \<^verbatim>\<open>/login\<close>. The dynamic segments of any route are rewritten by erasing the route groups
  first and then applying the rules for \<^verbatim>\<open>[[...slug]]\<close>, \<^verbatim>\<open>[[id]]\<close>, \<^verbatim>\<open>[...slug]\<close> and \<^verbatim>\<open>[id]\<close>
  in this order; the doubled brackets come out as \<^verbatim>\<open>*\<close> and \<^verbatim>\<open>:id?\<close>, which the single-bracket
  rules applied first would not give.
\<close>

theorem default_route_inference:
  "inferRoute createRouteInferrer ''pages/index.tsx'' = Some ''/''
   \<and> inferRoute createRouteInferrer ''pages/user/[id].tsx'' = Some ''/user/:id''
   \<and> inferRoute createRouteInferrer ''pages/docs/[...slug].tsx'' = Some ''/docs/*''
   \<and> inferRoute createRouteInferrer ''pages/(auth)/login.tsx'' = Some ''/login''
   \<and> processDynamicRoute r
       = rewrite_param (rewrite_catch_all (rewrite_optional_param
           (rewrite_optional_catch_all (erase_route_groups r))))
   \<and> processDynamicRoute ''/a/[[...slug]]'' = ''/a/*''
   \<and> rewrite_optional_catch_all (rewrite_catch_all ''/a/[[...slug]]'') = ''/a/[*]''
   \<and> processDynamicRoute ''/a/[[id]]'' = ''/a/:id?''
   \<and> rewrite_optional_param (rewrite_param ''/a/[[id]]'') = ''/a/[:id]''
   \<and> processDynamicRoute ''/(auth)/[id]'' = ''/:id''"
  by (simp add: infer_index infer_param infer_catch_all infer_group
                dynamic_optional_catch_all dynamic_optional_param dynamic_group_first
                other_order_differs)
     (simp add: processDynamicRoute_def)

section \<open>The change orchestrator (src/dev/dev-tools.ts)\<close>

definition config_ext :: rx where
  "config_ext = Alt (str ''ts'') (str ''js'')"

definition configPatterns :: "rx list" where
  "configPatterns =
     [seq [str ''deno'', dot, str ''json'', Eos],
      seq [str ''package'', dot, str ''json'', Eos],
      seq [str ''tsconfig'', dot, str ''json'', Eos],
      seq [str ''vite'', dot, str ''config'', dot, Group config_ext, Eos],
      seq [str ''webpack'', dot, str ''config'', dot, Group config_ext, Eos],
      seq [str ''rollup'', dot, str ''config'', dot, Group config_ext, Eos],
      seq [str ''esbuild'', dot, str ''config'', dot, Group config_ext, Eos],
      seq [str ''tailwind'', dot, str ''config'', dot, Group config_ext, Eos],
      seq [dot, str ''config'', dot, Group (Alt (str ''ts'') (Alt (str ''js'') (str ''json''))), Eos]]"

definition isConfigFile :: "string \<Rightarrow> bool" where
  "isConfigFile filePath = list_ex (\<lambda>pattern. rx_test True pattern filePath) configPatterns"

definition determineUpdateType :: "RouteMapping \<Rightarrow> string \<Rightarrow> string" where
  "determineUpdateType routeInferrer filePath =
     (if isConfigFile filePath then ''config-update''
      else if endsWith filePath ''.css'' then ''css-update''
      else if isLayoutFile routeInferrer filePath then ''layout-update''
      else if isPageFile routeInferrer filePath then ''component-update''
      else if isComponentFile routeInferrer filePath then ''component-update''
      else if rx_test False
                (seq [dot, Group (Alt (str ''ts'') (Alt (str ''js'') (Alt (str ''mjs'')
                         (Alt (str ''tsx'') (str ''jsx''))))), Eos]) filePath
        then ''module-update''
      else ''update'')"

text \<open>\<^verbatim>\<open>route || "/"\<close>: the fallback is taken for no route and for the empty route.\<close>

definition inferRouteFromPath :: "RouteMapping \<Rightarrow> string \<Rightarrow> string" where
  "inferRouteFromPath routeInferrer filePath =
     (case inferRoute routeInferrer filePath of
        None \<Rightarrow> ''/''
      | Some r \<Rightarrow> if r \<noteq> [] then r else ''/'')"

text \<open>
  The builder is an external collaborator. The promise that \<^verbatim>\<open>rebuild\<close> returns fulfils
  with a result or rejects with a reason, at some later moment. A reason is any value:
  an \<^verbatim>\<open>Error\<close> with its message, another value with the text that \<^verbatim>\<open>String\<close> gives for it,
  or a value that \<^verbatim>\<open>String\<close> cannot convert, such as an object without a prototype.
\<close>

record BuildResult =
  outputFiles :: "OutputFile list option"
  result_chunkUrl :: "string option"
  result_routePath :: "string option"

datatype rejection = ErrorObject string | OtherValue string | Unprintable

text \<open>
  \<^verbatim>\<open>error instanceof Error ? error.message : String(error)\<close>. The conversion of a value that
  has no \<^verbatim>\<open>toString\<close> and no \<^verbatim>\<open>valueOf\<close> throws a \<^verbatim>\<open>TypeError\<close> (\<open>None\<close>), whose message is
  the engine's.
\<close>

fun error_text :: "rejection \<Rightarrow> string option" where
  "error_text (ErrorObject msg) = Some msg"
| "error_text (OtherValue rendered) = Some rendered"
| "error_text Unprintable = None"

definition conversion_error :: rejection where
  "conversion_error = ErrorObject ''Cannot convert object to primitive value''"

type_synonym 'a promise = "rejection + 'a"

text \<open>
  \<^verbatim>\<open>p.then(f)\<close> and \<^verbatim>\<open>p.catch(g)\<close> once \<open>p\<close> has settled. A handler returns a value or throws,
  and what it throws rejects the promise of the chain.
\<close>

definition promise_then :: "'a promise \<Rightarrow> ('a \<Rightarrow> 'b promise) \<Rightarrow> 'b promise" where
  "promise_then p f = (case p of Inl reason \<Rightarrow> Inl reason | Inr v \<Rightarrow> f v)"

definition promise_catch :: "'a promise \<Rightarrow> (rejection \<Rightarrow> 'a promise) \<Rightarrow> 'a promise" where
  "promise_catch p g = (case p of Inl reason \<Rightarrow> g reason | Inr v \<Rightarrow> Inr v)"

text \<open>
  The state of \<^verbatim>\<open>DevTools\<close> that a rebuild touches. \<open>builder_configured\<close> tells whether
  \<^verbatim>\<open>config.builder\<close> is set. \<open>broadcasts\<close> lists the messages handed to
  \<^verbatim>\<open>wsManager.broadcast\<close>, oldest first; \<open>rebuildTimers\<close> holds the paths with a pending
  debounce timer. The recorder has one slot for the sample in flight. The clock readings
  taken by the recorder are parameters.
\<close>

record DevTools =
  builder_configured :: bool
  moduleGraph :: ModuleGraph
  routeInferrer :: RouteMapping
  performanceMonitor :: HMRPerformanceMonitor
  rebuildTimers :: js_set
  broadcasts :: "HMRMessage list"

definition new_DevTools :: "bool \<Rightarrow> DevTools" where
  "new_DevTools has_builder =
     \<lparr>builder_configured = has_builder, moduleGraph = new_graph,
      routeInferrer = createRouteInferrer, performanceMonitor = createPerformanceMonitor,
      rebuildTimers = [], broadcasts = []\<rparr>"

definition broadcast :: "HMRMessage \<Rightarrow> DevTools \<Rightarrow> DevTools" where
  "broadcast msg dt = dt\<lparr>broadcasts := broadcasts dt @ [msg]\<rparr>"

text \<open>
  The handler given to \<^verbatim>\<open>then\<close>. It reads the graph as it is when the promise fulfils:
  the builder may have updated it through \<^verbatim>\<open>getModuleGraph()\<close> in the meantime.
\<close>

definition on_rebuilt :: "real \<Rightarrow> string \<Rightarrow> string \<Rightarrow> BuildResult \<Rightarrow> DevTools \<Rightarrow> DevTools promise" where
  "on_rebuilt now p utype result dt =
     (let r = inferRouteFromPath (routeInferrer dt) p;
          affected = getAffectedModules (moduleGraph dt) p;
          mid = getModuleId (moduleGraph dt) p;
          updateMessage = \<lparr>type = utype, path = Some p, files = outputFiles result,
                           message = None, moduleId = mid, componentPath = None,
                           layoutPath = None, route = Some r,
                           affectedModules = Some affected, chunkUrl = result_chunkUrl result,
                           routePath = result_routePath result\<rparr>;
          adjusted = (if utype = ''config-update'' then updateMessage\<lparr>type := ''reload''\<rparr>
                      else if utype = ''component-update''
                        then updateMessage\<lparr>componentPath := Some p\<rparr>
                      else if utype = ''layout-update'' then updateMessage\<lparr>layoutPath := Some p\<rparr>
                      else if utype = ''module-update'' then updateMessage\<lparr>moduleId := Some p\<rparr>
                      else updateMessage);
          dt1 = broadcast adjusted dt
      in Inr (dt1\<lparr>performanceMonitor := endUpdate now True None (performanceMonitor dt1)\<rparr>))"

text \<open>
  The handler given to \<^verbatim>\<open>catch\<close>. The argument of \<^verbatim>\<open>broadcast\<close> is evaluated before the
  call, so a conversion that throws leaves the state as it was.
\<close>

definition on_rebuild_failed :: "real \<Rightarrow> rejection \<Rightarrow> DevTools \<Rightarrow> DevTools promise" where
  "on_rebuild_failed now reason dt =
     (case error_text reason of
        None \<Rightarrow> Inl conversion_error
      | Some detail \<Rightarrow>
          (let dt1 = broadcast ((plain_message ''error'')\<lparr>message := Some detail\<rparr>) dt
           in Inr (dt1\<lparr>performanceMonitor :=
                          endUpdate now False (Some detail) (performanceMonitor dt1)\<rparr>)))"

text \<open>
  \<^verbatim>\<open>runRebuildForPath\<close> up to the moment it returns: without a builder the broadcast, with
  one the opening of the sample and the call of \<^verbatim>\<open>rebuild\<close>. The handlers are attached to
  the promise and run when it settles.
\<close>

definition runRebuildForPath :: "real \<Rightarrow> string \<Rightarrow> string \<Rightarrow> DevTools \<Rightarrow> DevTools" where
  "runRebuildForPath now p utype dt =
     (let dt0 = dt\<lparr>rebuildTimers := set_delete p (rebuildTimers dt)\<rparr>
      in if \<not> builder_configured dt0
         then broadcast ((plain_message (if utype = ''css-update'' then ''css-update''
                                          else ''reload''))
                           \<lparr>path := Some p,
                            route := Some (inferRouteFromPath (routeInferrer dt0) p)\<rparr>) dt0
         else dt0\<lparr>performanceMonitor := startUpdate now [p] utype (performanceMonitor dt0)\<rparr>)"

text \<open>The chain \<^verbatim>\<open>rebuild(...).then(...).catch(...)\<close> at the moment the promise settles.\<close>

definition rebuild_settled ::
  "real \<Rightarrow> string \<Rightarrow> string \<Rightarrow> BuildResult promise \<Rightarrow> DevTools \<Rightarrow> DevTools promise" where
  "rebuild_settled now p utype outcome dt =
     promise_catch (promise_then outcome (\<lambda>result. on_rebuilt now p utype result dt))
                   (\<lambda>reason. on_rebuild_failed now reason dt)"

text \<open>
  What happens to the orchestrator, one event at a time: the debounce timer of a path
  fires (its callback removes the timer and calls \<^verbatim>\<open>runRebuildForPath\<close> with the
  classification of the path); the promise of the rebuild of a path settles; the builder
  updates the graph. Rebuilds of different paths may overlap. A chain that ends rejected
  has no further handler, and the run ends with that rejection.
\<close>

datatype watcher_event =
    TimerFired string real
  | Settled string "BuildResult promise" real
  | GraphChanged graph_op

fun watcher_step :: "watcher_event \<Rightarrow> DevTools \<Rightarrow> DevTools promise" where
  "watcher_step (TimerFired p now) dt =
     Inr (runRebuildForPath now p (determineUpdateType (routeInferrer dt) p)
            (dt\<lparr>rebuildTimers := set_delete p (rebuildTimers dt)\<rparr>))"
| "watcher_step (Settled p outcome now) dt =
     rebuild_settled now p (determineUpdateType (routeInferrer dt) p) outcome dt"
| "watcher_step (GraphChanged op) dt = Inr (dt\<lparr>moduleGraph := apply_op op (moduleGraph dt)\<rparr>)"

fun watcher_run :: "watcher_event list \<Rightarrow> DevTools \<Rightarrow> DevTools promise" where
  "watcher_run [] dt = Inr dt"
| "watcher_run (e # es) dt =
     (case watcher_step e dt of Inl reason \<Rightarrow> Inl reason | Inr dt' \<Rightarrow> watcher_run es dt')"

lemma watcher_run_append:
  "watcher_run (es @ fs) dt =
     (case watcher_run es dt of Inl reason \<Rightarrow> Inl reason | Inr dt' \<Rightarrow> watcher_run fs dt')"
  by (induction es arbitrary: dt) (simp_all split: sum.splits)

lemma watcher_run_graph:
  "watcher_run (map GraphChanged gs) dt = Inr (dt\<lparr>moduleGraph := fold apply_op gs (moduleGraph dt)\<rparr>)"
  by (induction gs arbitrary: dt) simp_all

lemma watcher_run_graph_then:
  "watcher_run (map GraphChanged gs @ es) dt
     = watcher_run es (dt\<lparr>moduleGraph := fold apply_op gs (moduleGraph dt)\<rparr>)"
  by (simp add: watcher_run_append watcher_run_graph)

lemma timer_fired_builder:
  assumes "builder_configured dt"
  shows "watcher_step (TimerFired p now) dt
           = Inr (dt\<lparr>rebuildTimers := set_delete p (set_delete p (rebuildTimers dt)),
                     performanceMonitor :=
                       startUpdate now [p] (determineUpdateType (routeInferrer dt) p)
                         (performanceMonitor dt)\<rparr>)"
  using assms by (simp add: runRebuildForPath_def Let_def)

lemma endUpdate_last:
  assumes "currentUpdate mon = Some cur"
  shows "last (metrics (endUpdate now ok_flag err_text mon)) = close_sample now ok_flag err_text cur"
    and "metrics (endUpdate now ok_flag err_text mon) \<noteq> []"
proof -
  let ?pushed = "metrics mon @ [close_sample now ok_flag err_text cur]"
  have m: "metrics (endUpdate now ok_flag err_text mon)
             = (if length ?pushed > maxMetrics then tl ?pushed else ?pushed)"
    using assms by (simp add: endUpdate_def Let_def)
  show "last (metrics (endUpdate now ok_flag err_text mon)) = close_sample now ok_flag err_text cur"
  proof (cases "length ?pushed > maxMetrics")
    case True
    then have "tl ?pushed \<noteq> []" by (cases "metrics mon") (auto simp: maxMetrics_def)
    then have "last (tl ?pushed) = last ?pushed" by (intro last_tl disjI2)
    with True m show ?thesis by simp
  next
    case False
    with m show ?thesis by simp
  qed
  show "metrics (endUpdate now ok_flag err_text mon) \<noteq> []"
  proof (cases "length ?pushed > maxMetrics")
    case True
    then have "tl ?pushed \<noteq> []" by (cases "metrics mon") (auto simp: maxMetrics_def)
    with True m show ?thesis by simp
  next
    case False
    with m show ?thesis by simp
  qed
qed

lemma classify_helper:
  "determineUpdateType createRouteInferrer ''src/utils/helper.ts'' = ''module-update''"
  by code_simp

lemma classify_page:
  "determineUpdateType createRouteInferrer ''pages/user/[id].tsx'' = ''component-update''"
  by code_simp

lemma infer_helper: "inferRoute createRouteInferrer ''src/utils/helper.ts'' = None"
  by code_simp

definition sent :: "DevTools promise \<Rightarrow> HMRMessage list" where
  "sent outcome = (case outcome of Inl reason \<Rightarrow> [] | Inr dt \<Rightarrow> broadcasts dt)"

definition recorded :: "DevTools promise \<Rightarrow> PerformanceMetrics list" where
  "recorded outcome = (case outcome of Inl reason \<Rightarrow> [] | Inr dt \<Rightarrow> metrics (performanceMonitor dt))"

text \<open>
  C4 fails as stated. For \<^verbatim>\<open>src/utils/helper.ts\<close>, which no pattern matches and which is
  not in the graph, \<^verbatim>\<open>inferRoute\<close> and \<^verbatim>\<open>getModuleId\<close> give nothing, yet the message has the
  route \<^verbatim>\<open>/\<close> (the fallback of \<^verbatim>\<open>inferRouteFromPath\<close>) and, the path being classified as a
  module update, the path itself as its module id.
\<close>

theorem rebuild_message_counterexample:
  "inferRoute createRouteInferrer ''src/utils/helper.ts'' = None
   \<and> getModuleId new_graph ''src/utils/helper.ts'' = None
   \<and> map route (sent (watcher_run
         [TimerFired ''src/utils/helper.ts'' 0,
          Settled ''src/utils/helper.ts''
            (Inr \<lparr>outputFiles = None, result_chunkUrl = None, result_routePath = None\<rparr>) 5]
         (new_DevTools True)))
       = [Some ''/'']
   \<and> map moduleId (sent (watcher_run
         [TimerFired ''src/utils/helper.ts'' 0,
          Settled ''src/utils/helper.ts''
            (Inr \<lparr>outputFiles = None, result_chunkUrl = None, result_routePath = None\<rparr>) 5]
         (new_DevTools True)))
       = [Some ''src/utils/helper.ts'']"
  by (simp add: infer_helper classify_helper getModuleId_def new_graph_def sent_def
        runRebuildForPath_def rebuild_settled_def promise_then_def promise_catch_def
        on_rebuilt_def broadcast_def inferRouteFromPath_def new_DevTools_def Let_def)

text \<open>
  C4, amended. When the promise of the rebuild of a path fulfils, whatever has happened
  since the rebuild was started, the orchestrator broadcasts exactly one message. It
  carries the path and the files, chunk URL and route path of the result. Its route is
  \<^verbatim>\<open>inferRoute(path)\<close> when that is a non-empty string and \<^verbatim>\<open>/\<close> otherwise; its affected
  modules are \<^verbatim>\<open>getAffectedModules(path)\<close> and its module id is \<^verbatim>\<open>getModuleId(path)\<close>, both
  read from the graph as it is at that moment, except that the module id of a module
  update is the path; its type is the classification of the path with \<^verbatim>\<open>config-update\<close>
  turned into \<^verbatim>\<open>reload\<close>; and a component or layout update also carries the path as its
  component path or layout path. Updates that the builder makes to the graph before the
  promise fulfils are seen by the message.
\<close>

theorem rebuild_success_message:
  "(\<exists>msg.
      watcher_step (Settled p (Inr result) now) dt
        = Inr (dt\<lparr>broadcasts := broadcasts dt @ [msg],
                  performanceMonitor := endUpdate now True None (performanceMonitor dt)\<rparr>)
      \<and> path msg = Some p
      \<and> files msg = outputFiles result
      \<and> chunkUrl msg = result_chunkUrl result
      \<and> routePath msg = result_routePath result
      \<and> message msg = None
      \<and> route msg = Some (case inferRoute (routeInferrer dt) p of
                             None \<Rightarrow> ''/''
                           | Some r \<Rightarrow> if r \<noteq> [] then r else ''/'')
      \<and> affectedModules msg = Some (getAffectedModules (moduleGraph dt) p)
      \<and> moduleId msg = (if determineUpdateType (routeInferrer dt) p = ''module-update''
                         then Some p else getModuleId (moduleGraph dt) p)
      \<and> type msg = (if determineUpdateType (routeInferrer dt) p = ''config-update''
                     then ''reload'' else determineUpdateType (routeInferrer dt) p)
      \<and> componentPath msg = (if determineUpdateType (routeInferrer dt) p = ''component-update''
                              then Some p else None)
      \<and> layoutPath msg = (if determineUpdateType (routeInferrer dt) p = ''layout-update''
                           then Some p else None))
   \<and> watcher_run (map GraphChanged gs @ [Settled p (Inr result) now]) dt
       = watcher_step (Settled p (Inr result) now)
           (dt\<lparr>moduleGraph := fold apply_op gs (moduleGraph dt)\<rparr>)"
proof -
  have graph: "watcher_run (map GraphChanged gs @ [Settled p (Inr result) now]) dt
       = watcher_step (Settled p (Inr result) now)
           (dt\<lparr>moduleGraph := fold apply_op gs (moduleGraph dt)\<rparr>)"
    by (simp only: watcher_run_graph_then watcher_run.simps sum.case_eq_if)
       (simp split: sum.splits)
  let ?ut = "determineUpdateType (routeInferrer dt) p"
  let ?msg = "\<lparr>type = (if ?ut = ''config-update'' then ''reload'' else ?ut),
               path = Some p, files = outputFiles result, message = None,
               moduleId = (if ?ut = ''module-update'' then Some p
                           else getModuleId (moduleGraph dt) p),
               componentPath = (if ?ut = ''component-update'' then Some p else None),
               layoutPath = (if ?ut = ''layout-update'' then Some p else None),
               route = Some (inferRouteFromPath (routeInferrer dt) p),
               affectedModules = Some (getAffectedModules (moduleGraph dt) p),
               chunkUrl = result_chunkUrl result,
               routePath = result_routePath result\<rparr>"
  have run: "watcher_step (Settled p (Inr result) now) dt
        = Inr (dt\<lparr>broadcasts := broadcasts dt @ [?msg],
                  performanceMonitor := endUpdate now True None (performanceMonitor dt)\<rparr>)"
    by (simp add: rebuild_settled_def promise_then_def promise_catch_def on_rebuilt_def
                  broadcast_def Let_def)
  have fields:
      "path ?msg = Some p" "files ?msg = outputFiles result"
      "chunkUrl ?msg = result_chunkUrl result" "routePath ?msg = result_routePath result"
      "message ?msg = None"
      "route ?msg = Some (case inferRoute (routeInferrer dt) p of
                             None \<Rightarrow> ''/''
                           | Some r \<Rightarrow> if r \<noteq> [] then r else ''/'')"
      "affectedModules ?msg = Some (getAffectedModules (moduleGraph dt) p)"
      "moduleId ?msg = (if ?ut = ''module-update'' then Some p
                        else getModuleId (moduleGraph dt) p)"
      "type ?msg = (if ?ut = ''config-update'' then ''reload'' else ?ut)"
      "componentPath ?msg = (if ?ut = ''component-update'' then Some p else None)"
      "layoutPath ?msg = (if ?ut = ''layout-update'' then Some p else None)"
    by (simp_all add: inferRouteFromPath_def)
  from run fields have step: "\<exists>msg.
      watcher_step (Settled p (Inr result) now) dt
        = Inr (dt\<lparr>broadcasts := broadcasts dt @ [msg],
                  performanceMonitor := endUpdate now True None (performanceMonitor dt)\<rparr>)
      \<and> path msg = Some p
      \<and> files msg = outputFiles result
      \<and> chunkUrl msg = result_chunkUrl result
      \<and> routePath msg = result_routePath result
      \<and> message msg = None
      \<and> route msg = Some (case inferRoute (routeInferrer dt) p of
                             None \<Rightarrow> ''/''
                           | Some r \<Rightarrow> if r \<noteq> [] then r else ''/'')
      \<and> affectedModules msg = Some (getAffectedModules (moduleGraph dt) p)
      \<and> moduleId msg = (if determineUpdateType (routeInferrer dt) p = ''module-update''
                         then Some p else getModuleId (moduleGraph dt) p)
      \<and> type msg = (if determineUpdateType (routeInferrer dt) p = ''config-update''
                     then ''reload'' else determineUpdateType (routeInferrer dt) p)
      \<and> componentPath msg = (if determineUpdateType (routeInferrer dt) p = ''component-update''
                              then Some p else None)
      \<and> layoutPath msg = (if determineUpdateType (routeInferrer dt) p = ''layout-update''
                           then Some p else None)"
    by (intro exI [of _ ?msg] conjI)
  from step graph show ?thesis by (rule conjI)
qed

text \<open>
  A page of the default layout. While it is rebuilt the builder registers the page, with
  one dependency, and a module that depends on the page: the message is a component
  update for the route \<^verbatim>\<open>/user/:id\<close> with the module id of the page and both modules as the
  affected ones.
\<close>

theorem rebuild_success_message_witness:
  "map route (sent (watcher_run
       [TimerFired ''pages/user/[id].tsx'' 0,
        GraphChanged (AddModule ''page'' ''pages/user/[id].tsx'' [''lib'']),
        GraphChanged (AddModule ''app'' ''src/app.ts'' [''page'']),
        Settled ''pages/user/[id].tsx''
          (Inr \<lparr>outputFiles = Some [\<lparr>file_path = ''dist/user.js'', contents = None\<rparr>],
                result_chunkUrl = Some ''/chunks/user.js'', result_routePath = None\<rparr>) 5]
       (new_DevTools True))) = [Some ''/user/:id'']
   \<and> map affectedModules (sent (watcher_run
       [TimerFired ''pages/user/[id].tsx'' 0,
        GraphChanged (AddModule ''page'' ''pages/user/[id].tsx'' [''lib'']),
        GraphChanged (AddModule ''app'' ''src/app.ts'' [''page'']),
        Settled ''pages/user/[id].tsx''
          (Inr \<lparr>outputFiles = Some [\<lparr>file_path = ''dist/user.js'', contents = None\<rparr>],
                result_chunkUrl = Some ''/chunks/user.js'', result_routePath = None\<rparr>) 5]
       (new_DevTools True))) = [Some [''page'', ''app'']]
   \<and> map moduleId (sent (watcher_run
       [TimerFired ''pages/user/[id].tsx'' 0,
        GraphChanged (AddModule ''page'' ''pages/user/[id].tsx'' [''lib'']),
        GraphChanged (AddModule ''app'' ''src/app.ts'' [''page'']),
        Settled ''pages/user/[id].tsx''
          (Inr \<lparr>outputFiles = Some [\<lparr>file_path = ''dist/user.js'', contents = None\<rparr>],
                result_chunkUrl = Some ''/chunks/user.js'', result_routePath = None\<rparr>) 5]
       (new_DevTools True))) = [Some ''page'']
   \<and> map type (sent (watcher_run
       [TimerFired ''pages/user/[id].tsx'' 0,
        GraphChanged (AddModule ''page'' ''pages/user/[id].tsx'' [''lib'']),
        GraphChanged (AddModule ''app'' ''src/app.ts'' [''page'']),
        Settled ''pages/user/[id].tsx''
          (Inr \<lparr>outputFiles = Some [\<lparr>file_path = ''dist/user.js'', contents = None\<rparr>],
                result_chunkUrl = Some ''/chunks/user.js'', result_routePath = None\<rparr>) 5]
       (new_DevTools True))) = [''component-update'']
   \<and> map componentPath (sent (watcher_run
       [TimerFired ''pages/user/[id].tsx'' 0,
        GraphChanged (AddModule ''page'' ''pages/user/[id].tsx'' [''lib'']),
        GraphChanged (AddModule ''app'' ''src/app.ts'' [''page'']),
        Settled ''pages/user/[id].tsx''
          (Inr \<lparr>outputFiles = Some [\<lparr>file_path = ''dist/user.js'', contents = None\<rparr>],
                result_chunkUrl = Some ''/chunks/user.js'', result_routePath = None\<rparr>) 5]
       (new_DevTools True))) = [Some ''pages/user/[id].tsx'']"
proof -
  let ?p = "''pages/user/[id].tsx''"
  let ?res = "\<lparr>outputFiles = Some [\<lparr>file_path = ''dist/user.js'', contents = None\<rparr>],
               result_chunkUrl = Some ''/chunks/user.js'', result_routePath = None\<rparr>"
  let ?gs = "[AddModule ''page'' ?p [''lib''], AddModule ''app'' ''src/app.ts'' [''page'']]"
  let ?d1 = "(new_DevTools True)
               \<lparr>rebuildTimers := set_delete ?p (set_delete ?p (rebuildTimers (new_DevTools True))),
                performanceMonitor :=
                  startUpdate 0 [?p] (determineUpdateType (routeInferrer (new_DevTools True)) ?p)
                    (performanceMonitor (new_DevTools True))\<rparr>"
  let ?d2 = "?d1\<lparr>moduleGraph := fold apply_op ?gs (moduleGraph ?d1)\<rparr>"
  let ?run = "watcher_run [TimerFired ?p 0, GraphChanged (AddModule ''page'' ?p [''lib'']),
                 GraphChanged (AddModule ''app'' ''src/app.ts'' [''page'']),
                 Settled ?p (Inr ?res) 5] (new_DevTools True)"
  have fire: "watcher_step (TimerFired ?p 0) (new_DevTools True) = Inr ?d1"
    by (rule timer_fired_builder) (simp add: new_DevTools_def)
  have "?run = watcher_run (map GraphChanged ?gs @ [Settled ?p (Inr ?res) 5]) ?d1"
    by (simp only: watcher_run.simps fire sum.case list.map append.simps)
  also have "\<dots> = watcher_step (Settled ?p (Inr ?res) 5) ?d2"
    by (rule rebuild_success_message [where dt = ?d1 and gs = ?gs, THEN conjunct2])
  finally have run: "?run = watcher_step (Settled ?p (Inr ?res) 5) ?d2" .
  have nb: "broadcasts (new_DevTools True) = []" by (simp add: new_DevTools_def)
  have g: "moduleGraph ?d2 = run_ops ?gs" "routeInferrer ?d2 = createRouteInferrer"
    by (simp_all add: new_DevTools_def run_ops_def)
  have g3: "broadcasts ?d2 = []" by (simp add: nb)
  have graph: "getModuleId (run_ops ?gs) ?p = Some ''page''"
              "getAffectedModules (run_ops ?gs) ?p = [''page'', ''app'']"
    by (simp_all add: run_ops_def new_graph_def addModule_def addModule_iter_def
                      get_or_empty_def set_add_def getModuleId_def getAffectedModules_def)
  from rebuild_success_message [where dt = ?d2 and p = ?p and result = ?res and now = 5,
                                THEN conjunct1]
  obtain msg where
    m: "watcher_step (Settled ?p (Inr ?res) 5) ?d2
          = Inr (?d2\<lparr>broadcasts := broadcasts ?d2 @ [msg],
                     performanceMonitor := endUpdate 5 True None (performanceMonitor ?d2)\<rparr>)"
       "route msg = Some (case inferRoute (routeInferrer ?d2) ?p of
                             None \<Rightarrow> ''/'' | Some r \<Rightarrow> if r \<noteq> [] then r else ''/'')"
       "affectedModules msg = Some (getAffectedModules (moduleGraph ?d2) ?p)"
       "moduleId msg = (if determineUpdateType (routeInferrer ?d2) ?p = ''module-update''
                         then Some ?p else getModuleId (moduleGraph ?d2) ?p)"
       "type msg = (if determineUpdateType (routeInferrer ?d2) ?p = ''config-update''
                     then ''reload'' else determineUpdateType (routeInferrer ?d2) ?p)"
       "componentPath msg = (if determineUpdateType (routeInferrer ?d2) ?p = ''component-update''
                              then Some ?p else None)"
    by blast
  have s: "sent ?run = [msg]"
    unfolding run m(1) by (simp add: sent_def nb)
  have f: "route msg = Some ''/user/:id''" "affectedModules msg = Some [''page'', ''app'']"
          "moduleId msg = Some ''page''" "type msg = ''component-update''"
          "componentPath msg = Some ?p"
    using m(2-6) by (simp_all only: g graph infer_param classify_page) simp_all
  show ?thesis unfolding s using f by simp
qed

text \<open>
  A reason that \<^verbatim>\<open>String\<close> cannot convert makes the handler of \<^verbatim>\<open>catch\<close> throw before it has
  done anything: the chain ends rejected.
\<close>

lemma rebuild_unprintable_reason:
  "watcher_step (Settled p (Inl Unprintable) now) dt = Inl conversion_error"
  by (simp add: rebuild_settled_def promise_then_def promise_catch_def on_rebuild_failed_def)

text \<open>
  C10 fails as stated. The recorder has one slot for the sample in flight, and rebuilds of
  different paths overlap. When \<^verbatim>\<open>b.ts\<close> changes while \<^verbatim>\<open>a.ts\<close> is rebuilt, the sample of
  \<^verbatim>\<open>b.ts\<close> replaces that of \<^verbatim>\<open>a.ts\<close> in the slot; the success of \<^verbatim>\<open>a.ts\<close> closes it as
  successful; and the failure of \<^verbatim>\<open>b.ts\<close> finds the slot empty and records nothing. And a
  failure whose text is empty leaves the error of its sample unset, \<^verbatim>\<open>if (error)\<close> in
  \<^verbatim>\<open>endUpdate\<close> being a truthiness test.
\<close>

theorem rebuild_failure_counterexample:
  "map filePaths (recorded (watcher_run
       [TimerFired ''a.ts'' 0, TimerFired ''b.ts'' 1,
        Settled ''a.ts'' (Inr \<lparr>outputFiles = None, result_chunkUrl = None,
                                result_routePath = None\<rparr>) 5,
        Settled ''b.ts'' (Inl (ErrorObject ''boom'')) 9]
       (new_DevTools True))) = [[''b.ts'']]
   \<and> map success (recorded (watcher_run
       [TimerFired ''a.ts'' 0, TimerFired ''b.ts'' 1,
        Settled ''a.ts'' (Inr \<lparr>outputFiles = None, result_chunkUrl = None,
                                result_routePath = None\<rparr>) 5,
        Settled ''b.ts'' (Inl (ErrorObject ''boom'')) 9]
       (new_DevTools True))) = [True]
   \<and> map success (recorded (watcher_run
       [TimerFired ''a.ts'' 0, Settled ''a.ts'' (Inl (ErrorObject '''')) 5]
       (new_DevTools True))) = [False]
   \<and> map error (recorded (watcher_run
       [TimerFired ''a.ts'' 0, Settled ''a.ts'' (Inl (ErrorObject '''')) 5]
       (new_DevTools True))) = [None]"
  by (simp add: recorded_def runRebuildForPath_def rebuild_settled_def promise_then_def
        promise_catch_def on_rebuilt_def on_rebuild_failed_def broadcast_def new_DevTools_def
        createPerformanceMonitor_def startUpdate_def endUpdate_def open_sample_def
        close_sample_def maxMetrics_def Let_def)

text \<open>
  C10, amended. When the promise of the rebuild of a path rejects with an \<^verbatim>\<open>Error\<close>, or with
  another value that \<^verbatim>\<open>String\<close> converts, the chain settles without rejecting, whatever
  has happened since the rebuild was started; exactly one message is broadcast, of type
  \<^verbatim>\<open>error\<close> with the text of the failure, and no update message; and the sample that is in
  flight at that moment, if there is one, is closed as failed and stored, with the text
  as its error when the text is not empty. When nothing but updates of the graph has
  happened since the timer of the path fired, that sample is the one opened for the path.
\<close>

theorem rebuild_failure_reported:
  assumes "reason = ErrorObject detail \<or> reason = OtherValue detail"
  shows "(\<exists>dt'. watcher_step (Settled p (Inl reason) now) dt = Inr dt'
            \<and> broadcasts dt' = broadcasts dt @ [(plain_message ''error'')\<lparr>message := Some detail\<rparr>]
            \<and> (case currentUpdate (performanceMonitor dt) of
                  None \<Rightarrow> performanceMonitor dt' = performanceMonitor dt
                | Some cur \<Rightarrow>
                    currentUpdate (performanceMonitor dt') = None
                    \<and> metrics (performanceMonitor dt') \<noteq> []
                    \<and> last (metrics (performanceMonitor dt'))
                        = cur\<lparr>endTime := Some now, duration := Some (now - startTime cur),
                              success := False,
                              error := (if detail = [] then error cur else Some detail)\<rparr>))
       \<and> (builder_configured dt_init \<longrightarrow>
            (\<exists>dt'. watcher_run (TimerFired p t_start # map GraphChanged gs
                                   @ [Settled p (Inl reason) t_end]) dt_init = Inr dt'
               \<and> broadcasts dt' = broadcasts dt_init
                                    @ [(plain_message ''error'')\<lparr>message := Some detail\<rparr>]
               \<and> metrics (performanceMonitor dt') \<noteq> []
               \<and> last (metrics (performanceMonitor dt'))
                   = \<lparr>startTime = t_start, endTime = Some t_end, duration = Some (t_end - t_start),
                      moduleCount = 1, filePaths = [p],
                      updateType = determineUpdateType (routeInferrer dt_init) p,
                      success = False,
                      error = (if detail = [] then None else Some detail)\<rparr>))"
proof -
  from assms have et: "error_text reason = Some detail" by auto
  have step: "\<And>d. watcher_step (Settled p (Inl reason) now) d
           = Inr (d\<lparr>broadcasts := broadcasts d
                                      @ [(plain_message ''error'')\<lparr>message := Some detail\<rparr>],
                    performanceMonitor :=
                      endUpdate now False (Some detail) (performanceMonitor d)\<rparr>)" for now
    by (simp add: rebuild_settled_def promise_then_def promise_catch_def on_rebuild_failed_def
                  broadcast_def et Let_def)
  let ?dt' = "dt\<lparr>broadcasts := broadcasts dt
                                 @ [(plain_message ''error'')\<lparr>message := Some detail\<rparr>],
                 performanceMonitor := endUpdate now False (Some detail) (performanceMonitor dt)\<rparr>"
  have slot: "(case currentUpdate (performanceMonitor dt) of
                  None \<Rightarrow> performanceMonitor ?dt' = performanceMonitor dt
                | Some cur \<Rightarrow>
                    currentUpdate (performanceMonitor ?dt') = None
                    \<and> metrics (performanceMonitor ?dt') \<noteq> []
                    \<and> last (metrics (performanceMonitor ?dt'))
                        = cur\<lparr>endTime := Some now, duration := Some (now - startTime cur),
                              success := False,
                              error := (if detail = [] then error cur else Some detail)\<rparr>)"
  proof (cases "currentUpdate (performanceMonitor dt)")
    case None
    then show ?thesis by (simp add: endUpdate_def)
  next
    case (Some cur)
    have "currentUpdate (performanceMonitor ?dt') = None"
      using Some by (simp add: endUpdate_def Let_def)
    moreover have "metrics (performanceMonitor ?dt') \<noteq> []"
      using endUpdate_last(2) [OF Some] by simp
    moreover have "last (metrics (performanceMonitor ?dt'))
                     = cur\<lparr>endTime := Some now, duration := Some (now - startTime cur),
                           success := False,
                           error := (if detail = [] then error cur else Some detail)\<rparr>"
      using endUpdate_last(1) [OF Some, of now False "Some detail"]
      by (simp add: close_sample_def Let_def)
    ultimately show ?thesis using Some by simp
  qed
  have general: "\<exists>dt'. watcher_step (Settled p (Inl reason) now) dt = Inr dt'
            \<and> broadcasts dt' = broadcasts dt @ [(plain_message ''error'')\<lparr>message := Some detail\<rparr>]
            \<and> (case currentUpdate (performanceMonitor dt) of
                  None \<Rightarrow> performanceMonitor dt' = performanceMonitor dt
                | Some cur \<Rightarrow>
                    currentUpdate (performanceMonitor dt') = None
                    \<and> metrics (performanceMonitor dt') \<noteq> []
                    \<and> last (metrics (performanceMonitor dt'))
                        = cur\<lparr>endTime := Some now, duration := Some (now - startTime cur),
                              success := False,
                              error := (if detail = [] then error cur else Some detail)\<rparr>)"
    using step [of now dt] slot by (intro exI [of _ ?dt']) simp
  have sequential: "\<exists>dt'. watcher_run (TimerFired p t_start # map GraphChanged gs
                                   @ [Settled p (Inl reason) t_end]) dt_init = Inr dt'
               \<and> broadcasts dt' = broadcasts dt_init
                                    @ [(plain_message ''error'')\<lparr>message := Some detail\<rparr>]
               \<and> metrics (performanceMonitor dt') \<noteq> []
               \<and> last (metrics (performanceMonitor dt'))
                   = \<lparr>startTime = t_start, endTime = Some t_end, duration = Some (t_end - t_start),
                      moduleCount = 1, filePaths = [p],
                      updateType = determineUpdateType (routeInferrer dt_init) p,
                      success = False,
                      error = (if detail = [] then None else Some detail)\<rparr>"
    if b: "builder_configured dt_init"
  proof -
    let ?ut = "determineUpdateType (routeInferrer dt_init) p"
    let ?mon = "startUpdate t_start [p] ?ut (performanceMonitor dt_init)"
    let ?d1 = "dt_init\<lparr>rebuildTimers := set_delete p (set_delete p (rebuildTimers dt_init)),
                   performanceMonitor := ?mon\<rparr>"
    let ?d2 = "?d1\<lparr>moduleGraph := fold apply_op gs (moduleGraph ?d1)\<rparr>"
    let ?d3 = "?d2\<lparr>broadcasts := broadcasts ?d2
                                   @ [(plain_message ''error'')\<lparr>message := Some detail\<rparr>],
                   performanceMonitor := endUpdate t_end False (Some detail) (performanceMonitor ?d2)\<rparr>"
    have fire: "watcher_step (TimerFired p t_start) dt_init = Inr ?d1"
      using b by (rule timer_fired_builder)
    have "watcher_run (TimerFired p t_start # map GraphChanged gs @ [Settled p (Inl reason) t_end]) dt_init
            = watcher_run (map GraphChanged gs @ [Settled p (Inl reason) t_end]) ?d1"
      by (simp only: watcher_run.simps fire sum.case)
    also have "\<dots> = watcher_run [Settled p (Inl reason) t_end] ?d2"
      by (rule watcher_run_graph_then)
    also have "\<dots> = Inr ?d3"
      by (simp only: watcher_run.simps step [of t_end ?d2] sum.case)
    finally have run: "watcher_run (TimerFired p t_start # map GraphChanged gs
                                     @ [Settled p (Inl reason) t_end]) dt_init = Inr ?d3" .
    have cur: "currentUpdate ?mon = Some (open_sample t_start [p] ?ut)"
      by (simp add: startUpdate_def)
    have mon3: "performanceMonitor ?d3 = endUpdate t_end False (Some detail) ?mon" by simp
    have ne: "metrics (performanceMonitor ?d3) \<noteq> []"
      unfolding mon3 by (rule endUpdate_last(2) [OF cur])
    have "last (metrics (performanceMonitor ?d3))
            = close_sample t_end False (Some detail) (open_sample t_start [p] ?ut)"
      unfolding mon3 by (rule endUpdate_last(1) [OF cur])
    then have sample: "last (metrics (performanceMonitor ?d3))
                   = \<lparr>startTime = t_start, endTime = Some t_end, duration = Some (t_end - t_start),
                      moduleCount = 1, filePaths = [p], updateType = ?ut, success = False,
                      error = (if detail = [] then None else Some detail)\<rparr>"
      by (simp add: close_sample_def open_sample_def Let_def)
    have bc: "broadcasts ?d3 = broadcasts dt_init
                                 @ [(plain_message ''error'')\<lparr>message := Some detail\<rparr>]"
      by simp
    from run bc ne sample show ?thesis by (intro exI [of _ ?d3] conjI)
  qed
  from general sequential show ?thesis by blast
qed

text \<open>A rebuild of \<^verbatim>\<open>src/main.ts\<close> that fails with a syntax error while the builder adds a
  module to the graph.\<close>

theorem rebuild_failure_reported_witness:
  "sent (watcher_run
     [TimerFired ''src/main.ts'' 0, GraphChanged (AddModule ''main'' ''src/main.ts'' []),
      Settled ''src/main.ts'' (Inl (ErrorObject ''syntax error'')) 5] (new_DevTools True))
     = [(plain_message ''error'')\<lparr>message := Some ''syntax error''\<rparr>]
   \<and> map filePaths (recorded (watcher_run
     [TimerFired ''src/main.ts'' 0, GraphChanged (AddModule ''main'' ''src/main.ts'' []),
      Settled ''src/main.ts'' (Inl (ErrorObject ''syntax error'')) 5] (new_DevTools True)))
     = [[''src/main.ts'']]
   \<and> map success (recorded (watcher_run
     [TimerFired ''src/main.ts'' 0, GraphChanged (AddModule ''main'' ''src/main.ts'' []),
      Settled ''src/main.ts'' (Inl (ErrorObject ''syntax error'')) 5] (new_DevTools True)))
     = [False]
   \<and> map error (recorded (watcher_run
     [TimerFired ''src/main.ts'' 0, GraphChanged (AddModule ''main'' ''src/main.ts'' []),
      Settled ''src/main.ts'' (Inl (ErrorObject ''syntax error'')) 5] (new_DevTools True)))
     = [Some ''syntax error'']"
proof -
  let ?run = "watcher_run
     [TimerFired ''src/main.ts'' 0, GraphChanged (AddModule ''main'' ''src/main.ts'' []),
      Settled ''src/main.ts'' (Inl (ErrorObject ''syntax error'')) 5] (new_DevTools True)"
  have b: "builder_configured (new_DevTools True)" by (simp add: new_DevTools_def)
  have r: "ErrorObject ''syntax error'' = ErrorObject ''syntax error''
           \<or> ErrorObject ''syntax error'' = OtherValue ''syntax error''" by simp
  from rebuild_failure_reported
         [where reason = "ErrorObject ''syntax error''" and detail = "''syntax error''"
            and dt_init = "new_DevTools True" and p = "''src/main.ts''" and t_start = 0 and t_end = 5
            and gs = "[AddModule ''main'' ''src/main.ts'' []]", OF r, THEN conjunct2, rule_format,
          OF b]
  obtain dt' where
    d: "?run = Inr dt'"
       "broadcasts dt' = broadcasts (new_DevTools True)
                           @ [(plain_message ''error'')\<lparr>message := Some ''syntax error''\<rparr>]"
       "metrics (performanceMonitor dt') \<noteq> []"
       "last (metrics (performanceMonitor dt'))
          = \<lparr>startTime = 0, endTime = Some 5, duration = Some (5 - 0), moduleCount = 1,
             filePaths = [''src/main.ts''],
             updateType = determineUpdateType (routeInferrer (new_DevTools True)) ''src/main.ts'',
             success = False,
             error = (if ''syntax error'' = [] then None else Some ''syntax error'')\<rparr>"
    by auto
  have len: "length (recorded ?run) = 1"
    by (simp add: recorded_def runRebuildForPath_def rebuild_settled_def promise_then_def
          promise_catch_def on_rebuild_failed_def broadcast_def new_DevTools_def
          createPerformanceMonitor_def startUpdate_def endUpdate_def maxMetrics_def Let_def)
  have rec: "recorded ?run = metrics (performanceMonitor dt')"
    unfolding d(1) by (simp add: recorded_def)
  from len rec d(3) obtain m where one: "metrics (performanceMonitor dt') = [m]"
    by (cases "metrics (performanceMonitor dt')") auto
  with d(4) have m: "filePaths m = [''src/main.ts'']" "success m = False"
                    "error m = Some ''syntax error''"
    by simp_all
  have s: "sent ?run = [(plain_message ''error'')\<lparr>message := Some ''syntax error''\<rparr>]"
    unfolding d(1) by (simp add: sent_def d(2) new_DevTools_def)
  show ?thesis unfolding s rec one using m by simp
qed

end
